theory Spec2Isabelle
  imports Main "HOL-Library.Word" "HOL-Library.Signed_Division"
begin

unbundle bit_operations_syntax

section \<open>Stepper pulse generation of the Driveboard firmware (firmware/src/stepper.c)\<close>

text \<open>
  The firmware runs on an 8-bit AVR: \<^verbatim>\<open>uint8_t\<close>, \<^verbatim>\<open>uint16_t\<close>, \<^verbatim>\<open>uint32_t\<close> are words of
  8, 16 and 32 bits, \<^verbatim>\<open>int32_t\<close> is a 32-bit word read with \<open>sint\<close>, and the C type
  \<^verbatim>\<open>int\<close> has 16 bits (avr-gcc), which is why the source writes \<^verbatim>\<open>0xffffL\<close> and
  \<^verbatim>\<open>ceiling * 8L\<close> where it wants 32-bit arithmetic.
\<close>

type_synonym u8 = "8 word"
type_synonym u16 = "16 word"
type_synonym u32 = "32 word"
type_synonym i32 = "32 word"

subsection \<open>Blocks\<close>

datatype block_type =
    TYPE_LINE
  | TYPE_RASTER_LINE
  | TYPE_AIR_ASSIST_ENABLE
  | TYPE_AIR_ASSIST_DISABLE
  | TYPE_AUX1_ASSIST_ENABLE
  | TYPE_AUX1_ASSIST_DISABLE
  | TYPE_AUX2_ASSIST_ENABLE
  | TYPE_AUX2_ASSIST_DISABLE

text \<open>
  Modelled from the spec: \<^verbatim>\<open>block_t\<close> is declared in planner.h, which is not among the
  sources. The record has the fields stepper.c reads, as the data model of the spec lists
  them: the step counts, the rates and the step-event indices are 32-bit values, the laser
  intensity is in [0,255], \<^verbatim>\<open>direction_bits\<close> is a port byte. The theorems below
  assume step counts and rates that are less than \<open>2 ^ 31\<close>, where reading a field as
  \<^verbatim>\<open>uint32_t\<close> or as \<^verbatim>\<open>int32_t\<close> gives the same number.
\<close>

record block =
  btype :: block_type
  steps_x :: u32
  steps_y :: u32
  steps_z :: u32
  direction_bits :: u8
  step_event_count :: u32
  nominal_rate :: u32
  initial_rate :: u32
  final_rate :: u32
  rate_delta :: u32
  accelerate_until :: u32
  decelerate_after :: u32
  nominal_laser_intensity :: u8
  pixel_steps :: u8

subsection \<open>Compile-time configuration\<close>

text \<open>
  Modelled from the spec: config.h, protocol.h and sense_control.h are not among the
  sources, so the constants they define are parameters: the pin numbers of the stepping
  port and of the limit port, \<^verbatim>\<open>INVERT_MASK\<close>, \<^verbatim>\<open>LIMIT_MASK\<close>, the clock, the
  rate limits, the stop status codes and the feature flags. \<^verbatim>\<open>adjust_beam_dynamics\<close>
  computes its intensity in floating point; the value it passes to
  \<^verbatim>\<open>control_laser_intensity\<close> is the parameter \<open>beam_dynamics\<close>, a function of the
  current block and the rate.
\<close>

record config =
  X_STEP_BIT :: nat
  Y_STEP_BIT :: nat
  Z_STEP_BIT :: nat
  X_DIRECTION_BIT :: nat
  Y_DIRECTION_BIT :: nat
  Z_DIRECTION_BIT :: nat
  INVERT_MASK :: u8
  X1_LIMIT_BIT :: nat
  Y1_LIMIT_BIT :: nat
  Z1_LIMIT_BIT :: nat
  LIMIT_MASK :: u8
  F_CPU :: u32
  ACCELERATION_TICKS_PER_SECOND :: u32
  MINIMUM_STEPS_PER_MINUTE :: u32
  STOPERROR_OK :: u8
  STOPERROR_LIMIT_HIT_X1 :: u8
  STOPERROR_LIMIT_HIT_X2 :: u8
  STOPERROR_LIMIT_HIT_Y1 :: u8
  STOPERROR_LIMIT_HIT_Y2 :: u8
  STOPERROR_LIMIT_HIT_Z1 :: u8
  STOPERROR_LIMIT_HIT_Z2 :: u8
  ENABLE_LASER_INTERLOCKS :: bool
  ENABLE_3AXES :: bool
  DRIVEBOARD_USB :: bool
  beam_dynamics :: "block \<Rightarrow> u32 \<Rightarrow> u8"

definition STEPPING_MASK :: "config \<Rightarrow> u8" where
  "STEPPING_MASK cfg =
     push_bit (X_STEP_BIT cfg) 1 OR push_bit (Y_STEP_BIT cfg) 1 OR push_bit (Z_STEP_BIT cfg) 1"

definition DIRECTION_MASK :: "config \<Rightarrow> u8" where
  "DIRECTION_MASK cfg =
     push_bit (X_DIRECTION_BIT cfg) 1 OR push_bit (Y_DIRECTION_BIT cfg) 1
       OR push_bit (Z_DIRECTION_BIT cfg) 1"

definition CYCLES_PER_MINUTE :: "config \<Rightarrow> u32" where
  "CYCLES_PER_MINUTE cfg = 60 * F_CPU cfg"

definition CYCLES_PER_ACCELERATION_TICK :: "config \<Rightarrow> u32" where
  "CYCLES_PER_ACCELERATION_TICK cfg = F_CPU cfg div ACCELERATION_TICKS_PER_SECOND cfg"

subsection \<open>State\<close>

datatype axis = X_AXIS | Y_AXIS | Z_AXIS

text \<open>
  The static variables of stepper.c, the hardware registers it writes, and the state of
  the collaborators it calls.

  Modelled from the spec: planner.c, serial.c and sense_control.c are not among the
  sources. The planner is its queue of blocks: \<^verbatim>\<open>planner_get_current_block\<close> peeks at
  the head, \<^verbatim>\<open>planner_discard_current_block\<close> pops it,
  \<^verbatim>\<open>planner_reset_block_buffer\<close> drops all blocks. The serial layer is the stream of
  raster bytes still to be read (\<^verbatim>\<open>serial_raster_read\<close> takes the next one), a flag set
  by \<^verbatim>\<open>serial_stop\<close> and a count of the calls of \<^verbatim>\<open>serial_consume_data\<close>. The
  control layer is the laser intensity and the three assist outputs, each holding the
  value last set.

  \<open>current_block\<close> holds the block the pointer refers to. Of timer 1 the state has the
  interrupt enable bit \<^verbatim>\<open>OCIE1A\<close> of \<^verbatim>\<open>TIMSK1\<close>, the clock select bits of
  \<^verbatim>\<open>TCCR1B\<close> and \<^verbatim>\<open>OCR1A\<close>. Timer 0 and the laser pin (the pulse of the laser) are
  written by the step interrupt and read nowhere in it; they are not part of the state.
  Of timer 2, which the step interrupt starts each time it has written the stepping port,
  the model has the overflow interrupt that resets the step pins.
\<close>

record stepper =
  stepper_position :: "axis \<Rightarrow> i32"
  current_block :: "block option"
  out_bits :: u8
  counter_x :: i32
  counter_y :: i32
  counter_z :: i32
  step_events_completed :: u32
  busy :: bool
  cycles_per_step_event :: u32
  acceleration_tick_counter :: u32
  adjusted_rate :: u32
  processing_flag :: bool
  stop_requested :: bool
  stop_status :: u8
  STEPPING_PORT :: u8
  OCIE1A :: bool
  CS1 :: u16
  OCR1A :: u16
  planner_queue :: "block list"
  laser_intensity :: u8
  air_assist :: bool
  aux1_assist :: bool
  aux2_assist :: bool
  serial_stopped :: bool
  serial_consumed :: nat
  raster :: "nat \<Rightarrow> u8"

text \<open>The sense signals the step interrupt reads, sampled once per invocation.\<close>

record senses =
  SENSE_DOOR_OPEN :: bool
  SENSE_CHILLER_OFF :: bool
  SENSE_X1_LIMIT :: bool
  SENSE_X2_LIMIT :: bool
  SENSE_Y1_LIMIT :: bool
  SENSE_Y2_LIMIT :: bool
  SENSE_Z1_LIMIT :: bool
  SENSE_Z2_LIMIT :: bool

subsection \<open>Collaborators\<close>

definition control_laser_intensity :: "u8 \<Rightarrow> stepper \<Rightarrow> stepper" where
  "control_laser_intensity v s = s\<lparr>laser_intensity := v\<rparr>"

definition planner_get_current_block :: "stepper \<Rightarrow> block option" where
  "planner_get_current_block s = (case planner_queue s of [] \<Rightarrow> None | b # _ \<Rightarrow> Some b)"

definition planner_discard_current_block :: "stepper \<Rightarrow> stepper" where
  "planner_discard_current_block s = s\<lparr>planner_queue := tl (planner_queue s)\<rparr>"

definition planner_reset_block_buffer :: "stepper \<Rightarrow> stepper" where
  "planner_reset_block_buffer s = s\<lparr>planner_queue := []\<rparr>"

definition serial_stop :: "stepper \<Rightarrow> stepper" where
  "serial_stop s = s\<lparr>serial_stopped := True\<rparr>"

definition serial_raster_read :: "stepper \<Rightarrow> u8 \<times> stepper" where
  "serial_raster_read s = (raster s 0, s\<lparr>raster := (\<lambda>i. raster s (Suc i))\<rparr>)"

definition serial_consume_data :: "stepper \<Rightarrow> stepper" where
  "serial_consume_data s = s\<lparr>serial_consumed := Suc (serial_consumed s)\<rparr>"

subsection \<open>Start, stop and the stop request\<close>

definition stepper_start_processing :: "config \<Rightarrow> stepper \<Rightarrow> stepper" where
  "stepper_start_processing cfg s =
     (if \<not> processing_flag s
      then s\<lparr>processing_flag := True, out_bits := INVERT_MASK cfg, OCIE1A := True\<rparr>
      else s)"

definition stepper_stop_processing :: "stepper \<Rightarrow> stepper" where
  "stepper_stop_processing s =
     control_laser_intensity 0
       (s\<lparr>processing_flag := False, current_block := None, OCIE1A := False\<rparr>)"

definition stepper_processing :: "stepper \<Rightarrow> bool" where
  "stepper_processing s = processing_flag s"

definition stepper_request_stop :: "u8 \<Rightarrow> stepper \<Rightarrow> stepper" where
  "stepper_request_stop status s =
     (if \<not> stop_requested s
      then serial_stop (s\<lparr>stop_status := status, stop_requested := True\<rparr>)
      else s)"

definition stepper_stop_status :: "stepper \<Rightarrow> u8" where
  "stepper_stop_status s = stop_status s"

definition stepper_stop_requested :: "stepper \<Rightarrow> bool" where
  "stepper_stop_requested s = stop_requested s"

definition stepper_stop_resume :: "config \<Rightarrow> stepper \<Rightarrow> stepper" where
  "stepper_stop_resume cfg s = s\<lparr>stop_status := STOPERROR_OK cfg, stop_requested := False\<rparr>"

subsection \<open>Timer configuration and speed\<close>

text \<open>
  \<^verbatim>\<open>config_step_timer\<close>: the cascade that chooses \<^verbatim>\<open>ceiling\<close>,
  \<^verbatim>\<open>prescaler\<close> and \<^verbatim>\<open>actual_cycles\<close>, and then the write of the clock select
  bits and of the ceiling. In the last branch the source computes
  \<^verbatim>\<open>0xffff * 1024\<close> without the \<^verbatim>\<open>L\<close> suffix the other branches have:
  \<^verbatim>\<open>0xffff\<close> is an \<^verbatim>\<open>unsigned int\<close> of 16 bits, \<^verbatim>\<open>1024\<close> an \<^verbatim>\<open>int\<close>, and
  the product is taken in 16 bits before it is widened to \<^verbatim>\<open>uint32_t\<close>.
\<close>

definition timer_setting :: "u32 \<Rightarrow> u16 \<times> u16 \<times> u32" where
  "timer_setting cycles =
     (if cycles \<le> 0xffff then
        (let ceiling = (ucast cycles :: u16) in (ceiling, 0, ucast ceiling))
      else if cycles \<le> 0x7ffff then
        (let ceiling = (ucast (drop_bit 3 cycles) :: u16) in (ceiling, 1, ucast ceiling * 8))
      else if cycles \<le> 0x3fffff then
        (let ceiling = (ucast (drop_bit 6 cycles) :: u16) in (ceiling, 2, ucast ceiling * 64))
      else if cycles \<le> 0xffffff then
        (let ceiling = (ucast (drop_bit 8 cycles) :: u16) in (ceiling, 3, ucast ceiling * 256))
      else if cycles \<le> 0x3ffffff then
        (let ceiling = (ucast (drop_bit 10 cycles) :: u16)
         in (ceiling, 4, ucast ceiling * 1024))
      else
        (0xffff, 4, ucast ((0xffff :: u16) * 1024)))"

definition config_step_timer :: "u32 \<Rightarrow> stepper \<Rightarrow> u32 \<times> stepper" where
  "config_step_timer cycles s =
     (case timer_setting cycles of
        (ceiling, prescaler, actual_cycles) \<Rightarrow>
          (actual_cycles, s\<lparr>CS1 := prescaler + 1, OCR1A := ceiling\<rparr>))"

definition adjust_speed :: "config \<Rightarrow> u32 \<Rightarrow> stepper \<Rightarrow> stepper" where
  "adjust_speed cfg steps_per_minute s =
     (let spm = (if steps_per_minute < MINIMUM_STEPS_PER_MINUTE cfg
                 then MINIMUM_STEPS_PER_MINUTE cfg else steps_per_minute)
      in case config_step_timer (CYCLES_PER_MINUTE cfg div spm) s of
           (actual_cycles, s') \<Rightarrow> s'\<lparr>cycles_per_step_event := actual_cycles\<rparr>)"

definition adjust_beam_dynamics :: "config \<Rightarrow> block \<Rightarrow> u32 \<Rightarrow> stepper \<Rightarrow> stepper" where
  "adjust_beam_dynamics cfg b steps_per_minute s =
     control_laser_intensity (beam_dynamics cfg b steps_per_minute) s"

definition acceleration_tick :: "config \<Rightarrow> stepper \<Rightarrow> bool \<times> stepper" where
  "acceleration_tick cfg s =
     (let c = acceleration_tick_counter s + cycles_per_step_event s
      in if c > CYCLES_PER_ACCELERATION_TICK cfg
         then (True, s\<lparr>acceleration_tick_counter := c - CYCLES_PER_ACCELERATION_TICK cfg\<rparr>)
         else (False, s\<lparr>acceleration_tick_counter := c\<rparr>))"

subsection \<open>The Bresenham line tracer\<close>

text \<open>
  One axis of the tracer, which the source writes out three times: add the steps of the
  axis to its counter; when the counter is positive (a signed comparison), set the step
  bit, take the step event count off and move the position by one, down when the
  direction bit of \<^verbatim>\<open>out_bits\<close> is set and up otherwise.
\<close>

definition bresenham :: "nat \<Rightarrow> nat \<Rightarrow> u32 \<Rightarrow> u32 \<Rightarrow> i32 \<times> u8 \<times> i32 \<Rightarrow> i32 \<times> u8 \<times> i32" where
  "bresenham step_bit direction_bit steps event_count cbp =
     (case cbp of (counter, bits, pos) \<Rightarrow>
        (let counter1 = counter + steps
         in if 0 <s counter1 then
              (let bits1 = bits OR push_bit step_bit 1
               in (counter1 - event_count, bits1,
                   if bit bits1 direction_bit then pos - 1 else pos + 1))
            else (counter1, bits, pos)))"

definition trace_line :: "config \<Rightarrow> block \<Rightarrow> stepper \<Rightarrow> stepper" where
  "trace_line cfg b s =
     (case bresenham (X_STEP_BIT cfg) (X_DIRECTION_BIT cfg) (steps_x b) (step_event_count b)
             (counter_x s, direction_bits b, stepper_position s X_AXIS) of
        (cx, bits_x, px) \<Rightarrow>
     (case bresenham (Y_STEP_BIT cfg) (Y_DIRECTION_BIT cfg) (steps_y b) (step_event_count b)
             (counter_y s, bits_x, stepper_position s Y_AXIS) of
        (cy, bits_y, py) \<Rightarrow>
     (case bresenham (Z_STEP_BIT cfg) (Z_DIRECTION_BIT cfg) (steps_z b) (step_event_count b)
             (counter_z s, bits_y, stepper_position s Z_AXIS) of
        (cz, bits_z, pz) \<Rightarrow>
          s\<lparr>counter_x := cx, counter_y := cy, counter_z := cz, out_bits := bits_z,
            stepper_position := (stepper_position s)(X_AXIS := px, Y_AXIS := py, Z_AXIS := pz)\<rparr>)))"

subsection \<open>The speed profile\<close>

text \<open>After a change of rate: a raster line keeps the laser off, a line dims it with the speed.\<close>

definition set_beam :: "config \<Rightarrow> block \<Rightarrow> u32 \<Rightarrow> stepper \<Rightarrow> stepper" where
  "set_beam cfg b rate s =
     (if btype b = TYPE_RASTER_LINE then control_laser_intensity 0 s
      else adjust_beam_dynamics cfg b rate s)"

text \<open>
  The intensity of a raster byte, \<^verbatim>\<open>(chr-128)*2*nominal_laser_intensity/255\<close>: the
  operands are promoted to \<^verbatim>\<open>int\<close> (16 bits), the division truncates towards zero, and
  the argument of \<^verbatim>\<open>control_laser_intensity\<close> is a \<^verbatim>\<open>uint8_t\<close>.
\<close>

definition raster_intensity :: "u8 \<Rightarrow> u8 \<Rightarrow> u8" where
  "raster_intensity chr intensity =
     (let product = ((ucast chr :: u16) - 128) * 2 * (ucast intensity :: u16)
      in word_of_int (sint product sdiv 255))"

definition accelerating :: "config \<Rightarrow> block \<Rightarrow> stepper \<Rightarrow> stepper" where
  "accelerating cfg b s =
     (case acceleration_tick cfg s of
        (tick, s1) \<Rightarrow>
          if tick then
            (let r = adjusted_rate s1 + rate_delta b;
                 r' = (if r > nominal_rate b then nominal_rate b else r)
             in set_beam cfg b r' (adjust_speed cfg r' (s1\<lparr>adjusted_rate := r'\<rparr>)))
          else s1)"

definition decelerating :: "config \<Rightarrow> block \<Rightarrow> stepper \<Rightarrow> stepper" where
  "decelerating cfg b s =
     (case acceleration_tick cfg s of
        (tick, s1) \<Rightarrow>
          if tick then
            (let r = (if adjusted_rate s1 > rate_delta b then adjusted_rate s1 - rate_delta b
                      else 0);
                 r' = (if r < final_rate b then final_rate b else r)
             in set_beam cfg b r' (adjust_speed cfg r' (s1\<lparr>adjusted_rate := r'\<rparr>)))
          else s1)"

definition cruising :: "config \<Rightarrow> block \<Rightarrow> stepper \<Rightarrow> stepper" where
  "cruising cfg b s =
     (let s1 = (if adjusted_rate s \<noteq> nominal_rate b
                then set_beam cfg b (nominal_rate b)
                       (adjust_speed cfg (nominal_rate b) (s\<lparr>adjusted_rate := nominal_rate b\<rparr>))
                else s)
      in if btype b = TYPE_RASTER_LINE
            \<and> step_events_completed s1 mod ucast (pixel_steps b) = 0
         then (case serial_raster_read s1 of
                 (chr, s2) \<Rightarrow>
                   control_laser_intensity
                     (raster_intensity chr (nominal_laser_intensity b)) s2)
         else s1)"

definition speed_adjustment :: "config \<Rightarrow> block \<Rightarrow> stepper \<Rightarrow> stepper" where
  "speed_adjustment cfg b s =
     (if step_events_completed s < step_event_count b then
        (if step_events_completed s < accelerate_until b then accelerating cfg b s
         else if step_events_completed s = decelerate_after b then
           s\<lparr>acceleration_tick_counter := CYCLES_PER_ACCELERATION_TICK cfg div 2\<rparr>
         else if step_events_completed s \<ge> decelerate_after b then decelerating cfg b s
         else cruising cfg b s)
      else
        planner_discard_current_block
          ((if btype b = TYPE_RASTER_LINE then serial_consume_data s else s)
             \<lparr>current_block := None\<rparr>))"

subsection \<open>The step interrupt\<close>

text \<open>Starting on a block just taken from the planner (a line or a raster line).\<close>

definition start_block :: "config \<Rightarrow> block \<Rightarrow> stepper \<Rightarrow> stepper" where
  "start_block cfg b s =
     (if btype b = TYPE_LINE \<or> btype b = TYPE_RASTER_LINE then
        (let s1 = s\<lparr>adjusted_rate := initial_rate b,
                    acceleration_tick_counter := CYCLES_PER_ACCELERATION_TICK cfg div 2\<rparr>;
             s2 = adjust_speed cfg (adjusted_rate s1) s1;
             s3 = (if btype b = TYPE_RASTER_LINE then control_laser_intensity 0 s2
                   else adjust_beam_dynamics cfg b (adjusted_rate s2) s2);
             c = - drop_bit 1 (step_event_count b)
         in s3\<lparr>counter_x := c, counter_y := c, counter_z := c, step_events_completed := 0\<rparr>)
      else s)"

definition discard_block :: "stepper \<Rightarrow> stepper" where
  "discard_block s = planner_discard_current_block (s\<lparr>current_block := None\<rparr>)"

text \<open>
  The \<^verbatim>\<open>switch\<close> on the type of the current block. With \<^verbatim>\<open>DRIVEBOARD_USB\<close> the
  cases of the two auxiliary outputs are compiled out and such a block falls through.
\<close>

definition process_block :: "config \<Rightarrow> block \<Rightarrow> stepper \<Rightarrow> stepper" where
  "process_block cfg b s =
     (case btype b of
        TYPE_LINE \<Rightarrow>
          (let s1 = trace_line cfg b s;
               s2 = s1\<lparr>step_events_completed := step_events_completed s1 + 1\<rparr>;
               s3 = s2\<lparr>out_bits := out_bits s2 XOR INVERT_MASK cfg\<rparr>
           in speed_adjustment cfg b s3)
      | TYPE_RASTER_LINE \<Rightarrow>
          (let s1 = trace_line cfg b s;
               s2 = s1\<lparr>step_events_completed := step_events_completed s1 + 1\<rparr>;
               s3 = s2\<lparr>out_bits := out_bits s2 XOR INVERT_MASK cfg\<rparr>
           in speed_adjustment cfg b s3)
      | TYPE_AIR_ASSIST_ENABLE \<Rightarrow> discard_block (s\<lparr>air_assist := True\<rparr>)
      | TYPE_AIR_ASSIST_DISABLE \<Rightarrow> discard_block (s\<lparr>air_assist := False\<rparr>)
      | TYPE_AUX1_ASSIST_ENABLE \<Rightarrow>
          (if DRIVEBOARD_USB cfg then s else discard_block (s\<lparr>aux1_assist := True\<rparr>))
      | TYPE_AUX1_ASSIST_DISABLE \<Rightarrow>
          (if DRIVEBOARD_USB cfg then s else discard_block (s\<lparr>aux1_assist := False\<rparr>))
      | TYPE_AUX2_ASSIST_ENABLE \<Rightarrow>
          (if DRIVEBOARD_USB cfg then s else discard_block (s\<lparr>aux2_assist := True\<rparr>))
      | TYPE_AUX2_ASSIST_DISABLE \<Rightarrow>
          (if DRIVEBOARD_USB cfg then s else discard_block (s\<lparr>aux2_assist := False\<rparr>)))"

text \<open>
  The limit checks of the interlock section, in the order of the source; the section is
  compiled in with \<^verbatim>\<open>ENABLE_LASER_INTERLOCKS\<close>.
\<close>

definition limit_hit :: "config \<Rightarrow> senses \<Rightarrow> u8 option" where
  "limit_hit cfg inp =
     (if SENSE_X1_LIMIT inp then Some (STOPERROR_LIMIT_HIT_X1 cfg)
      else if SENSE_X2_LIMIT inp then Some (STOPERROR_LIMIT_HIT_X2 cfg)
      else if SENSE_Y1_LIMIT inp then Some (STOPERROR_LIMIT_HIT_Y1 cfg)
      else if SENSE_Y2_LIMIT inp then Some (STOPERROR_LIMIT_HIT_Y2 cfg)
      else if ENABLE_3AXES cfg \<and> SENSE_Z1_LIMIT inp then Some (STOPERROR_LIMIT_HIT_Z1 cfg)
      else if ENABLE_3AXES cfg \<and> SENSE_Z2_LIMIT inp then Some (STOPERROR_LIMIT_HIT_Z2 cfg)
      else None)"

definition limit_stop :: "config \<Rightarrow> senses \<Rightarrow> u8 option" where
  "limit_stop cfg inp = (if ENABLE_LASER_INTERLOCKS cfg then limit_hit cfg inp else None)"

definition pulse_steppers :: "config \<Rightarrow> stepper \<Rightarrow> stepper" where
  "pulse_steppers cfg s =
     (let p1 = (STEPPING_PORT s AND NOT (DIRECTION_MASK cfg))
                 OR (out_bits s AND DIRECTION_MASK cfg);
          p2 = (p1 AND NOT (STEPPING_MASK cfg)) OR out_bits s
      in s\<lparr>STEPPING_PORT := p2\<rparr>)"

text \<open>
  \<^verbatim>\<open>ISR(TIMER1_COMPA_vect)\<close>, one invocation. Every path that passes the busy test sets
  \<open>busy\<close> and clears it again before it returns.
\<close>

definition TIMER1_COMPA_vect :: "config \<Rightarrow> senses \<Rightarrow> stepper \<Rightarrow> stepper" where
  "TIMER1_COMPA_vect cfg inp s0 =
     (if busy s0 then s0
      else
        (let s = s0\<lparr>busy := True\<rparr>
         in if stop_requested s then
              (planner_reset_block_buffer (stepper_stop_processing s))\<lparr>busy := False\<rparr>
            else
              (let s1 = (if ENABLE_LASER_INTERLOCKS cfg
                            \<and> (SENSE_DOOR_OPEN inp \<or> SENSE_CHILLER_OFF inp)
                         then control_laser_intensity 0 s else s)
               in case limit_stop cfg inp of
                    Some status \<Rightarrow> (stepper_request_stop status s1)\<lparr>busy := False\<rparr>
                  | None \<Rightarrow>
                      (let s2 = pulse_steppers cfg s1
                       in case current_block s2 of
                            Some b \<Rightarrow> (process_block cfg b s2)\<lparr>busy := False\<rparr>
                          | None \<Rightarrow>
                              (case planner_get_current_block s2 of
                                 None \<Rightarrow> (stepper_stop_processing s2)\<lparr>busy := False\<rparr>
                               | Some b \<Rightarrow>
                                   (process_block cfg b
                                      (start_block cfg b (s2\<lparr>current_block := Some b\<rparr>)))
                                     \<lparr>busy := False\<rparr>)))))"

text \<open>
  \<^verbatim>\<open>ISR(TIMER2_OVF_vect)\<close>, the stepper reset interrupt: it puts the step pins back to
  their idle levels, \<^verbatim>\<open>CONFIG_PULSE_MICROSECONDS\<close> after the step interrupt has
  written the port and started timer 2.
\<close>

definition TIMER2_OVF_vect :: "config \<Rightarrow> stepper \<Rightarrow> stepper" where
  "TIMER2_OVF_vect cfg s =
     s\<lparr>STEPPING_PORT := (STEPPING_PORT s AND NOT (STEPPING_MASK cfg))
                           OR (INVERT_MASK cfg AND STEPPING_MASK cfg)\<rparr>"

text \<open>Successive invocations, one per element of the list of sense readings.\<close>

fun run_isr :: "config \<Rightarrow> senses list \<Rightarrow> stepper \<Rightarrow> stepper" where
  "run_isr cfg [] s = s"
| "run_isr cfg (inp # inps) s = run_isr cfg inps (TIMER1_COMPA_vect cfg inp s)"

subsection \<open>The homing cycle\<close>







text \<open>The states after each of the successive invocations.\<close>

fun isr_trace :: "config \<Rightarrow> senses list \<Rightarrow> stepper \<Rightarrow> stepper list" where
  "isr_trace cfg [] s = []"
| "isr_trace cfg (inp # inps) s =
     TIMER1_COMPA_vect cfg inp s # isr_trace cfg inps (TIMER1_COMPA_vect cfg inp s)"

text \<open>
  Step cycles: each invocation of the step interrupt is followed by the reset interrupt
  before the next one. \<open>step_cycles\<close> lists the states in which the invocations leave
  the machine, the stepping port as the invocation has written it and before the reset;
  \<open>run_cycles\<close> is the state after the last reset. An invocation that returns before
  it writes the port does not start timer 2; here the reset interrupt runs all the same,
  and it leaves step pins that are idle as they are.
\<close>

fun step_cycles :: "config \<Rightarrow> senses list \<Rightarrow> stepper \<Rightarrow> stepper list" where
  "step_cycles cfg [] s = []"
| "step_cycles cfg (inp # inps) s =
     TIMER1_COMPA_vect cfg inp s
       # step_cycles cfg inps (TIMER2_OVF_vect cfg (TIMER1_COMPA_vect cfg inp s))"

fun run_cycles :: "config \<Rightarrow> senses list \<Rightarrow> stepper \<Rightarrow> stepper" where
  "run_cycles cfg [] s = s"
| "run_cycles cfg (inp # inps) s =
     run_cycles cfg inps (TIMER2_OVF_vect cfg (TIMER1_COMPA_vect cfg inp s))"

subsection \<open>Notions used to state the properties\<close>

text \<open>The per-axis fields, by axis.\<close>

primrec counter_of :: "axis \<Rightarrow> stepper \<Rightarrow> i32" where
  "counter_of X_AXIS s = counter_x s"
| "counter_of Y_AXIS s = counter_y s"
| "counter_of Z_AXIS s = counter_z s"

primrec steps_of :: "axis \<Rightarrow> block \<Rightarrow> u32" where
  "steps_of X_AXIS b = steps_x b"
| "steps_of Y_AXIS b = steps_y b"
| "steps_of Z_AXIS b = steps_z b"

primrec STEP_BIT :: "config \<Rightarrow> axis \<Rightarrow> nat" where
  "STEP_BIT cfg X_AXIS = X_STEP_BIT cfg"
| "STEP_BIT cfg Y_AXIS = Y_STEP_BIT cfg"
| "STEP_BIT cfg Z_AXIS = Z_STEP_BIT cfg"

primrec DIRECTION_BIT :: "config \<Rightarrow> axis \<Rightarrow> nat" where
  "DIRECTION_BIT cfg X_AXIS = X_DIRECTION_BIT cfg"
| "DIRECTION_BIT cfg Y_AXIS = Y_DIRECTION_BIT cfg"
| "DIRECTION_BIT cfg Z_AXIS = Z_DIRECTION_BIT cfg"

text \<open>
  The step and direction pins are six different pins of the 8-bit stepping port, and the
  direction byte of a block has direction bits only.
\<close>

definition pins_ok :: "config \<Rightarrow> bool" where
  "pins_ok cfg =
     (distinct [X_STEP_BIT cfg, Y_STEP_BIT cfg, Z_STEP_BIT cfg,
                X_DIRECTION_BIT cfg, Y_DIRECTION_BIT cfg, Z_DIRECTION_BIT cfg]
      \<and> X_STEP_BIT cfg < 8 \<and> Y_STEP_BIT cfg < 8 \<and> Z_STEP_BIT cfg < 8
      \<and> X_DIRECTION_BIT cfg < 8 \<and> Y_DIRECTION_BIT cfg < 8 \<and> Z_DIRECTION_BIT cfg < 8)"

definition motion_block :: "block \<Rightarrow> bool" where
  "motion_block b = (btype b = TYPE_LINE \<or> btype b = TYPE_RASTER_LINE)"

text \<open>
  A step pin is at its active level when it differs from its idle level, which is its bit
  of \<^verbatim>\<open>INVERT_MASK\<close>. A step pulse of axis \<open>a\<close> is emitted in a step cycle when the
  invocation of the step interrupt leaves the step pin of \<open>a\<close> active on the stepping
  port and the reset interrupt puts it back to idle; \<open>pulses_emitted\<close> counts the pulses
  over step cycles.
\<close>

definition pin_active :: "config \<Rightarrow> axis \<Rightarrow> stepper \<Rightarrow> bool" where
  "pin_active cfg a s = bit (STEPPING_PORT s XOR INVERT_MASK cfg) (STEP_BIT cfg a)"

definition port_pulse :: "config \<Rightarrow> axis \<Rightarrow> stepper \<Rightarrow> bool" where
  "port_pulse cfg a s =
     (pin_active cfg a s \<and> \<not> pin_active cfg a (TIMER2_OVF_vect cfg s))"

definition pulses_emitted :: "config \<Rightarrow> axis \<Rightarrow> senses list \<Rightarrow> stepper \<Rightarrow> nat" where
  "pulses_emitted cfg a inps s = length (filter (port_pulse cfg a) (step_cycles cfg inps s))"

text \<open>
  The variable \<open>out_bits\<close> holds the pattern the next invocation will write to the port:
  \<open>step_pattern\<close> says that this pending pattern has a step of axis \<open>a\<close>. It is a
  statement about the variable, not yet about the port.
\<close>

definition step_pattern :: "config \<Rightarrow> axis \<Rightarrow> stepper \<Rightarrow> bool" where
  "step_pattern cfg a s = bit (out_bits s XOR INVERT_MASK cfg) (STEP_BIT cfg a)"

definition pattern_count :: "config \<Rightarrow> axis \<Rightarrow> stepper list \<Rightarrow> nat" where
  "pattern_count cfg a ss = length (filter (step_pattern cfg a) ss)"

text \<open>
  The values a step event of block \<open>b\<close> starts from: the stored ones when the block is
  already current, and the ones \<open>start_block\<close> sets when the block is still to be
  taken from the planner.
\<close>

definition entry_counter :: "block \<Rightarrow> axis \<Rightarrow> stepper \<Rightarrow> i32" where
  "entry_counter b a s =
     (if current_block s = None then - drop_bit 1 (step_event_count b) else counter_of a s)"

definition entry_events :: "stepper \<Rightarrow> u32" where
  "entry_events s = (if current_block s = None then 0 else step_events_completed s)"

definition entry_rate :: "block \<Rightarrow> stepper \<Rightarrow> u32" where
  "entry_rate b s = (if current_block s = None then initial_rate b else adjusted_rate s)"










subsection \<open>A configuration, blocks and states to evaluate\<close>

definition example_config :: config where
  "example_config =
     \<lparr>X_STEP_BIT = 0, Y_STEP_BIT = 1, Z_STEP_BIT = 2,
      X_DIRECTION_BIT = 3, Y_DIRECTION_BIT = 4, Z_DIRECTION_BIT = 5,
      INVERT_MASK = 0, X1_LIMIT_BIT = 0, Y1_LIMIT_BIT = 2, Z1_LIMIT_BIT = 4,
      LIMIT_MASK = 0x3f, F_CPU = 16000000, ACCELERATION_TICKS_PER_SECOND = 100,
      MINIMUM_STEPS_PER_MINUTE = 1600, STOPERROR_OK = 0, STOPERROR_LIMIT_HIT_X1 = 1,
      STOPERROR_LIMIT_HIT_X2 = 2, STOPERROR_LIMIT_HIT_Y1 = 3, STOPERROR_LIMIT_HIT_Y2 = 4,
      STOPERROR_LIMIT_HIT_Z1 = 5, STOPERROR_LIMIT_HIT_Z2 = 6,
      ENABLE_LASER_INTERLOCKS = True, ENABLE_3AXES = True, DRIVEBOARD_USB = False,
      beam_dynamics = (\<lambda>b r. nominal_laser_intensity b)\<rparr>"

definition no_signal :: senses where
  "no_signal =
     \<lparr>SENSE_DOOR_OPEN = False, SENSE_CHILLER_OFF = False, SENSE_X1_LIMIT = False,
      SENSE_X2_LIMIT = False, SENSE_Y1_LIMIT = False, SENSE_Y2_LIMIT = False,
      SENSE_Z1_LIMIT = False, SENSE_Z2_LIMIT = False\<rparr>"

definition x1_asserted :: senses where
  "x1_asserted = no_signal\<lparr>SENSE_X1_LIMIT := True\<rparr>"

text \<open>
  A processing state with no current block: the given blocks in the planner, the given
  raster stream, and the laser on at 77.
\<close>

definition armed :: "block list \<Rightarrow> (nat \<Rightarrow> u8) \<Rightarrow> stepper" where
  "armed q rs =
     \<lparr>stepper_position = (\<lambda>_. 0), current_block = None, out_bits = 0,
      counter_x = 0, counter_y = 0, counter_z = 0, step_events_completed = 0,
      busy = False, cycles_per_step_event = 0, acceleration_tick_counter = 0,
      adjusted_rate = 0, processing_flag = True, stop_requested = False, stop_status = 0,
      STEPPING_PORT = 0, OCIE1A = True, CS1 = 0, OCR1A = 0, planner_queue = q,
      laser_intensity = 77, air_assist = False, aux1_assist = False, aux2_assist = False,
      serial_stopped = False, serial_consumed = 0, raster = rs\<rparr>"

definition line_block :: "u32 \<Rightarrow> u32 \<Rightarrow> u32 \<Rightarrow> u32 \<Rightarrow> block" where
  "line_block sx sy sz n =
     \<lparr>btype = TYPE_LINE, steps_x = sx, steps_y = sy, steps_z = sz, direction_bits = 0,
      step_event_count = n, nominal_rate = 60000, initial_rate = 60000, final_rate = 60000,
      rate_delta = 0, accelerate_until = 0, decelerate_after = n,
      nominal_laser_intensity = 100, pixel_steps = 0\<rparr>"

text \<open>The raster line of the cruise scenario: 100 step events, all of them cruising.\<close>

definition raster_block :: block where
  "raster_block =
     \<lparr>btype = TYPE_RASTER_LINE, steps_x = 100, steps_y = 0, steps_z = 0,
      direction_bits = 0, step_event_count = 100, nominal_rate = 60000,
      initial_rate = 60000, final_rate = 60000, rate_delta = 0, accelerate_until = 0,
      decelerate_after = 100, nominal_laser_intensity = 200, pixel_steps = 10\<rparr>"

definition raster_bytes :: "nat \<Rightarrow> u8" where
  "raster_bytes i = (if i = 0 then 128 else if i = 1 then 255 else if i = 2 then 192 else 128)"

text \<open>
  A line of 30 step events that accelerates from 20000 to the nominal 60000 steps per
  minute over its first 10 events and decelerates towards 20000 from its 20th, and a
  command block that turns the air assist on.
\<close>

definition ramp_block :: block where
  "ramp_block =
     \<lparr>btype = TYPE_LINE, steps_x = 30, steps_y = 0, steps_z = 0, direction_bits = 0,
      step_event_count = 30, nominal_rate = 60000, initial_rate = 20000, final_rate = 20000,
      rate_delta = 10000, accelerate_until = 10, decelerate_after = 20,
      nominal_laser_intensity = 100, pixel_steps = 0\<rparr>"

definition air_assist_on :: block where
  "air_assist_on = (line_block 0 0 0 0)\<lparr>btype := TYPE_AIR_ASSIST_ENABLE\<rparr>"

text \<open>The direction byte of a block leaves the step bits clear.\<close>

definition direction_only :: "config \<Rightarrow> block \<Rightarrow> bool" where
  "direction_only cfg b = (direction_bits b AND STEPPING_MASK cfg = 0)"

subsection \<open>Notions used in the proofs\<close>

text \<open>
  Block \<open>b\<close> is being executed: it is at the head of the planner queue, and either
  current or about to be fetched; the interrupt is not running and no stop is requested.
\<close>

definition executing :: "block \<Rightarrow> block list \<Rightarrow> stepper \<Rightarrow> bool" where
  "executing b q s =
     (\<not> busy s \<and> \<not> stop_requested s \<and> planner_queue s = b # q
      \<and> (current_block s = None \<or> current_block s = Some b))"

text \<open>
  The state in which an invocation that neither returns early nor finds the planner empty
  reaches the \<^verbatim>\<open>switch\<close> on the type of block \<open>b\<close>.
\<close>

definition event_entry :: "config \<Rightarrow> senses \<Rightarrow> block \<Rightarrow> stepper \<Rightarrow> stepper" where
  "event_entry cfg inp b s =
     (let s1 = (if ENABLE_LASER_INTERLOCKS cfg
                   \<and> (SENSE_DOOR_OPEN inp \<or> SENSE_CHILLER_OFF inp)
                then control_laser_intensity 0 (s\<lparr>busy := True\<rparr>) else s\<lparr>busy := True\<rparr>);
          s2 = pulse_steppers cfg s1
      in if current_block s2 = None then start_block cfg b (s2\<lparr>current_block := Some b\<rparr>)
         else s2)"

text \<open>The state with another value on the stepping port.\<close>

definition set_port :: "u8 \<Rightarrow> stepper \<Rightarrow> stepper" where
  "set_port p s = s\<lparr>STEPPING_PORT := p\<rparr>"

section \<open>Properties\<close>

subsection \<open>Which fields each operation leaves alone\<close>

lemma adjust_speed_keeps [simp]:
  "stepper_position (adjust_speed cfg r s) = stepper_position s"
  "current_block (adjust_speed cfg r s) = current_block s"
  "out_bits (adjust_speed cfg r s) = out_bits s"
  "counter_x (adjust_speed cfg r s) = counter_x s"
  "counter_y (adjust_speed cfg r s) = counter_y s"
  "counter_z (adjust_speed cfg r s) = counter_z s"
  "step_events_completed (adjust_speed cfg r s) = step_events_completed s"
  "busy (adjust_speed cfg r s) = busy s"
  "processing_flag (adjust_speed cfg r s) = processing_flag s"
  "stop_requested (adjust_speed cfg r s) = stop_requested s"
  "stop_status (adjust_speed cfg r s) = stop_status s"
  "OCIE1A (adjust_speed cfg r s) = OCIE1A s"
  "planner_queue (adjust_speed cfg r s) = planner_queue s"
  "adjusted_rate (adjust_speed cfg r s) = adjusted_rate s"
  "acceleration_tick_counter (adjust_speed cfg r s) = acceleration_tick_counter s"
  "laser_intensity (adjust_speed cfg r s) = laser_intensity s"
  "raster (adjust_speed cfg r s) = raster s"
  by (simp_all add: adjust_speed_def config_step_timer_def split: prod.splits)

lemma set_beam_keeps [simp]:
  "stepper_position (set_beam cfg b r s) = stepper_position s"
  "current_block (set_beam cfg b r s) = current_block s"
  "out_bits (set_beam cfg b r s) = out_bits s"
  "counter_x (set_beam cfg b r s) = counter_x s"
  "counter_y (set_beam cfg b r s) = counter_y s"
  "counter_z (set_beam cfg b r s) = counter_z s"
  "step_events_completed (set_beam cfg b r s) = step_events_completed s"
  "busy (set_beam cfg b r s) = busy s"
  "processing_flag (set_beam cfg b r s) = processing_flag s"
  "stop_requested (set_beam cfg b r s) = stop_requested s"
  "stop_status (set_beam cfg b r s) = stop_status s"
  "OCIE1A (set_beam cfg b r s) = OCIE1A s"
  "planner_queue (set_beam cfg b r s) = planner_queue s"
  "adjusted_rate (set_beam cfg b r s) = adjusted_rate s"
  "acceleration_tick_counter (set_beam cfg b r s) = acceleration_tick_counter s"
  "raster (set_beam cfg b r s) = raster s"
  by (simp_all add: set_beam_def control_laser_intensity_def adjust_beam_dynamics_def)

lemma acceleration_tick_keeps [simp]:
  "stepper_position (snd (acceleration_tick cfg s)) = stepper_position s"
  "current_block (snd (acceleration_tick cfg s)) = current_block s"
  "out_bits (snd (acceleration_tick cfg s)) = out_bits s"
  "counter_x (snd (acceleration_tick cfg s)) = counter_x s"
  "counter_y (snd (acceleration_tick cfg s)) = counter_y s"
  "counter_z (snd (acceleration_tick cfg s)) = counter_z s"
  "step_events_completed (snd (acceleration_tick cfg s)) = step_events_completed s"
  "busy (snd (acceleration_tick cfg s)) = busy s"
  "processing_flag (snd (acceleration_tick cfg s)) = processing_flag s"
  "stop_requested (snd (acceleration_tick cfg s)) = stop_requested s"
  "stop_status (snd (acceleration_tick cfg s)) = stop_status s"
  "OCIE1A (snd (acceleration_tick cfg s)) = OCIE1A s"
  "planner_queue (snd (acceleration_tick cfg s)) = planner_queue s"
  "adjusted_rate (snd (acceleration_tick cfg s)) = adjusted_rate s"
  "laser_intensity (snd (acceleration_tick cfg s)) = laser_intensity s"
  "raster (snd (acceleration_tick cfg s)) = raster s"
  by (simp_all add: acceleration_tick_def Let_def)

lemma accelerating_keeps [simp]:
  "stepper_position (accelerating cfg b s) = stepper_position s"
  "current_block (accelerating cfg b s) = current_block s"
  "out_bits (accelerating cfg b s) = out_bits s"
  "counter_x (accelerating cfg b s) = counter_x s"
  "counter_y (accelerating cfg b s) = counter_y s"
  "counter_z (accelerating cfg b s) = counter_z s"
  "step_events_completed (accelerating cfg b s) = step_events_completed s"
  "busy (accelerating cfg b s) = busy s"
  "processing_flag (accelerating cfg b s) = processing_flag s"
  "stop_requested (accelerating cfg b s) = stop_requested s"
  "stop_status (accelerating cfg b s) = stop_status s"
  "OCIE1A (accelerating cfg b s) = OCIE1A s"
  "planner_queue (accelerating cfg b s) = planner_queue s"
  "raster (accelerating cfg b s) = raster s"
  by (simp_all add: accelerating_def Let_def split_beta)

lemma decelerating_keeps [simp]:
  "stepper_position (decelerating cfg b s) = stepper_position s"
  "current_block (decelerating cfg b s) = current_block s"
  "out_bits (decelerating cfg b s) = out_bits s"
  "counter_x (decelerating cfg b s) = counter_x s"
  "counter_y (decelerating cfg b s) = counter_y s"
  "counter_z (decelerating cfg b s) = counter_z s"
  "step_events_completed (decelerating cfg b s) = step_events_completed s"
  "busy (decelerating cfg b s) = busy s"
  "processing_flag (decelerating cfg b s) = processing_flag s"
  "stop_requested (decelerating cfg b s) = stop_requested s"
  "stop_status (decelerating cfg b s) = stop_status s"
  "OCIE1A (decelerating cfg b s) = OCIE1A s"
  "planner_queue (decelerating cfg b s) = planner_queue s"
  "raster (decelerating cfg b s) = raster s"
  by (simp_all add: decelerating_def Let_def split_beta)

lemma cruising_keeps [simp]:
  "stepper_position (cruising cfg b s) = stepper_position s"
  "current_block (cruising cfg b s) = current_block s"
  "out_bits (cruising cfg b s) = out_bits s"
  "counter_x (cruising cfg b s) = counter_x s"
  "counter_y (cruising cfg b s) = counter_y s"
  "counter_z (cruising cfg b s) = counter_z s"
  "step_events_completed (cruising cfg b s) = step_events_completed s"
  "busy (cruising cfg b s) = busy s"
  "processing_flag (cruising cfg b s) = processing_flag s"
  "stop_requested (cruising cfg b s) = stop_requested s"
  "stop_status (cruising cfg b s) = stop_status s"
  "OCIE1A (cruising cfg b s) = OCIE1A s"
  "planner_queue (cruising cfg b s) = planner_queue s"
  by (simp_all add: cruising_def serial_raster_read_def control_laser_intensity_def Let_def)

lemma speed_adjustment_keeps [simp]:
  "stepper_position (speed_adjustment cfg b s) = stepper_position s"
  "out_bits (speed_adjustment cfg b s) = out_bits s"
  "counter_x (speed_adjustment cfg b s) = counter_x s"
  "counter_y (speed_adjustment cfg b s) = counter_y s"
  "counter_z (speed_adjustment cfg b s) = counter_z s"
  "step_events_completed (speed_adjustment cfg b s) = step_events_completed s"
  "busy (speed_adjustment cfg b s) = busy s"
  "processing_flag (speed_adjustment cfg b s) = processing_flag s"
  "stop_requested (speed_adjustment cfg b s) = stop_requested s"
  "stop_status (speed_adjustment cfg b s) = stop_status s"
  "OCIE1A (speed_adjustment cfg b s) = OCIE1A s"
  by (simp_all add: speed_adjustment_def planner_discard_current_block_def
      serial_consume_data_def)

lemma trace_line_keeps [simp]:
  "current_block (trace_line cfg b s) = current_block s"
  "step_events_completed (trace_line cfg b s) = step_events_completed s"
  "busy (trace_line cfg b s) = busy s"
  "processing_flag (trace_line cfg b s) = processing_flag s"
  "stop_requested (trace_line cfg b s) = stop_requested s"
  "stop_status (trace_line cfg b s) = stop_status s"
  "OCIE1A (trace_line cfg b s) = OCIE1A s"
  "planner_queue (trace_line cfg b s) = planner_queue s"
  "adjusted_rate (trace_line cfg b s) = adjusted_rate s"
  "laser_intensity (trace_line cfg b s) = laser_intensity s"
  "raster (trace_line cfg b s) = raster s"
  by (simp_all add: trace_line_def split: prod.splits)

lemma speed_adjustment_block:
  "current_block (speed_adjustment cfg b s) =
     (if step_events_completed s < step_event_count b then current_block s else None)"
  "planner_queue (speed_adjustment cfg b s) =
     (if step_events_completed s < step_event_count b then planner_queue s
      else tl (planner_queue s))"
  by (simp_all add: speed_adjustment_def planner_discard_current_block_def
      serial_consume_data_def)

lemma process_block_keeps [simp]:
  "busy (process_block cfg b s) = busy s"
  "processing_flag (process_block cfg b s) = processing_flag s"
  "stop_requested (process_block cfg b s) = stop_requested s"
  "stop_status (process_block cfg b s) = stop_status s"
  "OCIE1A (process_block cfg b s) = OCIE1A s"
  by (simp_all add: process_block_def discard_block_def planner_discard_current_block_def
      Let_def split: block_type.splits)

lemma start_block_keeps [simp]:
  "stepper_position (start_block cfg b s) = stepper_position s"
  "current_block (start_block cfg b s) = current_block s"
  "busy (start_block cfg b s) = busy s"
  "processing_flag (start_block cfg b s) = processing_flag s"
  "stop_requested (start_block cfg b s) = stop_requested s"
  "stop_status (start_block cfg b s) = stop_status s"
  "OCIE1A (start_block cfg b s) = OCIE1A s"
  "planner_queue (start_block cfg b s) = planner_queue s"
  "raster (start_block cfg b s) = raster s"
  by (simp_all add: start_block_def control_laser_intensity_def adjust_beam_dynamics_def
      Let_def)

lemma stepper_stop_processing_simps [simp]:
  "processing_flag (stepper_stop_processing s) = False"
  "current_block (stepper_stop_processing s) = None"
  "OCIE1A (stepper_stop_processing s) = False"
  "laser_intensity (stepper_stop_processing s) = 0"
  "planner_queue (stepper_stop_processing s) = planner_queue s"
  "stop_status (stepper_stop_processing s) = stop_status s"
  "stop_requested (stepper_stop_processing s) = stop_requested s"
  by (simp_all add: stepper_stop_processing_def control_laser_intensity_def)

lemma stepper_request_stop_simps [simp]:
  "processing_flag (stepper_request_stop k s) = processing_flag s"
  "current_block (stepper_request_stop k s) = current_block s"
  "planner_queue (stepper_request_stop k s) = planner_queue s"
  "OCIE1A (stepper_request_stop k s) = OCIE1A s"
  by (simp_all add: stepper_request_stop_def serial_stop_def)

lemma pulse_steppers_simps [simp]:
  "processing_flag (pulse_steppers cfg s) = processing_flag s"
  "current_block (pulse_steppers cfg s) = current_block s"
  "planner_queue (pulse_steppers cfg s) = planner_queue s"
  "laser_intensity (pulse_steppers cfg s) = laser_intensity s"
  by (simp_all add: pulse_steppers_def Let_def)

subsection \<open>Signed 32-bit arithmetic without overflow\<close>

lemma stb31: "- (2 ^ 31) \<le> k \<Longrightarrow> k < 2 ^ 31 \<Longrightarrow> signed_take_bit 31 k = (k::int)"
  by (rule signed_take_bit_int_eq_self) simp_all

lemma sint_small:
  fixes w :: "32 word"
  assumes "uint w < 2 ^ 31"
  shows "sint w = uint w"
proof -
  have "- (2 ^ 31) \<le> (0::int)" by simp
  also have "0 \<le> uint w" by simp
  finally have "signed_take_bit 31 (uint w) = uint w"
    using assms by (rule stb31)
  then show ?thesis by (simp add: sint_uint)
qed

lemma sint_add_small:
  fixes c st :: "32 word"
  assumes "- (2 ^ 31) \<le> sint c + uint st" "sint c + uint st < 2 ^ 31" "uint st < 2 ^ 31"
  shows "sint (c + st) = sint c + uint st"
  using assms by (simp add: sint_word_add sint_small stb31)

lemma sint_sub_small:
  fixes c n :: "32 word"
  assumes "- (2 ^ 31) \<le> sint c - uint n" "sint c - uint n < 2 ^ 31" "uint n < 2 ^ 31"
  shows "sint (c - n) = sint c - uint n"
  using assms by (simp add: sint_word_diff sint_small stb31)

lemma uint_half:
  fixes n :: "32 word"
  shows "uint (drop_bit 1 n) = uint n div 2"
proof -
  have "unat (drop_bit 1 n) = unat n div 2"
    by (simp add: unat_drop_bit_eq drop_bit_eq_div unat_div)
  then have "int (unat (drop_bit 1 n)) = int (unat n div 2)" by simp
  then show ?thesis by (simp add: zdiv_int)
qed

lemma sint_neg_half:
  fixes n :: "32 word"
  shows "sint (- drop_bit 1 n) = - (uint n div 2)"
proof -
  have b: "0 \<le> uint n div 2" "uint n div 2 < 2 ^ 31"
    using uint_lt2p [of n] by simp_all
  then have "uint (drop_bit 1 n) < 2 ^ 31" unfolding uint_half by simp
  then have "sint (drop_bit 1 n) = uint n div 2"
    unfolding uint_half [symmetric] by (rule sint_small)
  moreover have "signed_take_bit 31 (- (uint n div 2)) = - (uint n div 2)"
    using b by (intro stb31) linarith+
  ultimately show ?thesis
    by (simp add: sint_word_minus)
qed


lemma bresenham_counter_step:
  fixes c st n :: "32 word"
  assumes n: "uint n < 2 ^ 31" and st: "st \<le> n"
    and c: "- uint n < sint c" "sint c \<le> 0"
  shows "sint (c + st) = sint c + uint st"
    and "0 <s c + st \<longleftrightarrow> 0 < sint c + uint st"
    and "0 <s c + st \<Longrightarrow> sint (c + st - n) = sint c + uint st - uint n"
proof -
  have st': "uint st \<le> uint n" using st by (simp add: word_le_def)
  have st0: "0 \<le> uint st" by simp
  show 1: "sint (c + st) = sint c + uint st"
    using n st' st0 c by (intro sint_add_small) linarith+
  show 2: "0 <s c + st \<longleftrightarrow> 0 < sint c + uint st"
    by (simp add: word_sless_alt 1)
  assume "0 <s c + st"
  then have pos: "0 < sint c + uint st" using 2 by simp
  have "sint (c + st - n) = sint (c + st) - uint n"
    using n st' st0 c pos 1 by (intro sint_sub_small) linarith+
  then show "sint (c + st - n) = sint c + uint st - uint n" using 1 by simp
qed


subsection \<open>The tracer on one axis\<close>

lemma bit_two_power:
  "bit (2 ^ m :: u8) k \<longleftrightarrow> k = m \<and> m < 8"
  by (auto simp: bit_exp_iff)

lemma bit_push_one:
  "bit (push_bit m (1::u8)) k \<longleftrightarrow> k = m \<and> m < 8"
  by (simp add: bit_two_power)

lemma bresenham_simps:
  "fst (bresenham sb db st n (c, bits, p)) = (if 0 <s c + st then c + st - n else c + st)"
  "fst (snd (bresenham sb db st n (c, bits, p))) =
     (if 0 <s c + st then bits OR push_bit sb 1 else bits)"
  "snd (snd (bresenham sb db st n (c, bits, p))) =
     (if 0 <s c + st then (if bit bits db \<or> (db = sb \<and> sb < 8) then p - 1 else p + 1) else p)"
  by (simp_all add: bresenham_def Let_def bit_or_iff bit_two_power)

lemma trace_line_counter:
  "counter_of a (trace_line cfg b s) =
     (if 0 <s counter_of a s + steps_of a b
      then counter_of a s + steps_of a b - step_event_count b
      else counter_of a s + steps_of a b)"
  by (cases a) (simp_all add: trace_line_def split_beta bresenham_simps)

lemma trace_line_bit:
  "bit (out_bits (trace_line cfg b s)) k \<longleftrightarrow>
     bit (direction_bits b) k
     \<or> (\<exists>a. 0 <s counter_of a s + steps_of a b \<and> k = STEP_BIT cfg a \<and> k < 8)"
proof -
  have ex: "(\<exists>a. P a) \<longleftrightarrow> P X_AXIS \<or> P Y_AXIS \<or> P Z_AXIS" for P
    by (metis axis.exhaust)
  show ?thesis
    unfolding ex
    by (simp add: trace_line_def split_beta bresenham_simps bit_or_iff bit_two_power) blast
qed

lemma trace_line_position:
  assumes "pins_ok cfg"
  shows "stepper_position (trace_line cfg b s) a =
     (if 0 <s counter_of a s + steps_of a b
      then (if bit (direction_bits b) (DIRECTION_BIT cfg a)
            then stepper_position s a - 1 else stepper_position s a + 1)
      else stepper_position s a)"
  using assms
  by (cases a)
    (auto simp add: pins_ok_def trace_line_def split_beta bresenham_simps bit_or_iff bit_two_power)

subsection \<open>One step event of a line\<close>

lemma process_block_motion:
  assumes "motion_block b"
  shows "process_block cfg b s =
     speed_adjustment cfg b
       ((trace_line cfg b s)
          \<lparr>step_events_completed := step_events_completed s + 1,
           out_bits := out_bits (trace_line cfg b s) XOR INVERT_MASK cfg\<rparr>)"
  using assms by (auto simp: process_block_def motion_block_def Let_def)

lemma counter_of_keeps [simp]:
  "counter_of a (speed_adjustment cfg b s) = counter_of a s"
  "counter_of a (s\<lparr>step_events_completed := e\<rparr>) = counter_of a s"
  "counter_of a (s\<lparr>out_bits := ob\<rparr>) = counter_of a s"
  "counter_of a (s\<lparr>busy := f\<rparr>) = counter_of a s"
  by (cases a; simp)+

lemma control_laser_intensity_keeps [simp]:
  "counter_of a (control_laser_intensity v s) = counter_of a s"
  "current_block (control_laser_intensity v s) = current_block s"
  "step_events_completed (control_laser_intensity v s) = step_events_completed s"
  "adjusted_rate (control_laser_intensity v s) = adjusted_rate s"
  "stepper_position (control_laser_intensity v s) = stepper_position s"
  "planner_queue (control_laser_intensity v s) = planner_queue s"
  "stop_requested (control_laser_intensity v s) = stop_requested s"
  "raster (control_laser_intensity v s) = raster s"
  by (cases a; simp add: control_laser_intensity_def)+

lemma pulse_steppers_keeps [simp]:
  "counter_of a (pulse_steppers cfg s) = counter_of a s"
  "step_events_completed (pulse_steppers cfg s) = step_events_completed s"
  "adjusted_rate (pulse_steppers cfg s) = adjusted_rate s"
  "stepper_position (pulse_steppers cfg s) = stepper_position s"
  "stop_requested (pulse_steppers cfg s) = stop_requested s"
  "raster (pulse_steppers cfg s) = raster s"
  by (cases a; simp add: pulse_steppers_def Let_def)+

lemma isr_executing:
  assumes "executing b q s" and "limit_stop cfg inp = None"
  shows "TIMER1_COMPA_vect cfg inp s
           = (process_block cfg b (event_entry cfg inp b s))\<lparr>busy := False\<rparr>"
  using assms
  by (auto simp: executing_def TIMER1_COMPA_vect_def event_entry_def Let_def
      planner_get_current_block_def control_laser_intensity_def)

lemma event_entry_fields:
  assumes "executing b q s" and "motion_block b"
  shows "counter_of a (event_entry cfg inp b s) = entry_counter b a s"
    and "step_events_completed (event_entry cfg inp b s) = entry_events s"
    and "adjusted_rate (event_entry cfg inp b s) = entry_rate b s"
    and "stepper_position (event_entry cfg inp b s) = stepper_position s"
    and "current_block (event_entry cfg inp b s) = Some b"
    and "planner_queue (event_entry cfg inp b s) = b # q"
    and "\<not> stop_requested (event_entry cfg inp b s)"
    and "raster (event_entry cfg inp b s) = raster s"
proof -
  have c: "counter_of a (start_block cfg b t) = - drop_bit 1 (step_event_count b)" for t
    using assms(2) by (cases a) (auto simp: start_block_def motion_block_def Let_def)
  have e: "step_events_completed (start_block cfg b t) = 0" for t
    using assms(2) by (auto simp: start_block_def motion_block_def Let_def)
  have r: "adjusted_rate (start_block cfg b t) = initial_rate b" for t
    using assms(2)
    by (auto simp: start_block_def motion_block_def Let_def adjust_beam_dynamics_def)
  show "counter_of a (event_entry cfg inp b s) = entry_counter b a s"
    using assms(1) by (auto simp: c event_entry_def entry_counter_def executing_def Let_def)
  show "step_events_completed (event_entry cfg inp b s) = entry_events s"
    using assms(1) by (auto simp: e event_entry_def entry_events_def executing_def Let_def)
  show "adjusted_rate (event_entry cfg inp b s) = entry_rate b s"
    using assms(1) by (auto simp: r event_entry_def entry_rate_def executing_def Let_def)
  show "stepper_position (event_entry cfg inp b s) = stepper_position s"
    by (auto simp: event_entry_def Let_def)
  show "current_block (event_entry cfg inp b s) = Some b"
    using assms(1) by (auto simp: event_entry_def executing_def Let_def)
  show "planner_queue (event_entry cfg inp b s) = b # q"
    using assms(1) by (auto simp: event_entry_def executing_def Let_def)
  show "\<not> stop_requested (event_entry cfg inp b s)"
    using assms(1) by (auto simp: event_entry_def executing_def Let_def)
  show "raster (event_entry cfg inp b s) = raster s"
    by (auto simp: event_entry_def Let_def)
qed

lemma isr_step:
  assumes ex: "executing b q s" and mb: "motion_block b" and ls: "limit_stop cfg inp = None"
  shows "counter_of a (TIMER1_COMPA_vect cfg inp s) =
           (if 0 <s entry_counter b a s + steps_of a b
            then entry_counter b a s + steps_of a b - step_event_count b
            else entry_counter b a s + steps_of a b)"
    and "step_events_completed (TIMER1_COMPA_vect cfg inp s) = entry_events s + 1"
    and "current_block (TIMER1_COMPA_vect cfg inp s) =
           (if entry_events s + 1 < step_event_count b then Some b else None)"
    and "planner_queue (TIMER1_COMPA_vect cfg inp s) =
           (if entry_events s + 1 < step_event_count b then b # q else q)"
    and "\<not> busy (TIMER1_COMPA_vect cfg inp s)"
    and "\<not> stop_requested (TIMER1_COMPA_vect cfg inp s)"
    and "bit (out_bits (TIMER1_COMPA_vect cfg inp s) XOR INVERT_MASK cfg) k \<longleftrightarrow>
           bit (direction_bits b) k
           \<or> (\<exists>a. 0 <s entry_counter b a s + steps_of a b \<and> k = STEP_BIT cfg a \<and> k < 8)"
    and "pins_ok cfg \<Longrightarrow> stepper_position (TIMER1_COMPA_vect cfg inp s) a =
           (if 0 <s entry_counter b a s + steps_of a b
            then (if bit (direction_bits b) (DIRECTION_BIT cfg a)
                  then stepper_position s a - 1 else stepper_position s a + 1)
            else stepper_position s a)"
proof -
  note ee = event_entry_fields [OF ex mb]
  have isr: "TIMER1_COMPA_vect cfg inp s
      = (speed_adjustment cfg b
           ((trace_line cfg b (event_entry cfg inp b s))
              \<lparr>step_events_completed := entry_events s + 1,
               out_bits := out_bits (trace_line cfg b (event_entry cfg inp b s))
                             XOR INVERT_MASK cfg\<rparr>))\<lparr>busy := False\<rparr>"
    by (simp add: isr_executing [OF ex ls] process_block_motion [OF mb] ee)
  show "counter_of a (TIMER1_COMPA_vect cfg inp s) =
           (if 0 <s entry_counter b a s + steps_of a b
            then entry_counter b a s + steps_of a b - step_event_count b
            else entry_counter b a s + steps_of a b)"
    by (simp add: isr trace_line_counter ee)
  show "step_events_completed (TIMER1_COMPA_vect cfg inp s) = entry_events s + 1"
    by (simp add: isr)
  show "current_block (TIMER1_COMPA_vect cfg inp s) =
           (if entry_events s + 1 < step_event_count b then Some b else None)"
    by (simp add: isr speed_adjustment_block ee)
  show "planner_queue (TIMER1_COMPA_vect cfg inp s) =
           (if entry_events s + 1 < step_event_count b then b # q else q)"
    by (simp add: isr speed_adjustment_block ee)
  show "\<not> busy (TIMER1_COMPA_vect cfg inp s)"
    by (simp add: isr)
  show "\<not> stop_requested (TIMER1_COMPA_vect cfg inp s)"
    by (simp add: isr ee)
  show "bit (out_bits (TIMER1_COMPA_vect cfg inp s) XOR INVERT_MASK cfg) k \<longleftrightarrow>
           bit (direction_bits b) k
           \<or> (\<exists>a. 0 <s entry_counter b a s + steps_of a b \<and> k = STEP_BIT cfg a \<and> k < 8)"
    by (auto simp: isr bit_xor_iff trace_line_bit ee)
  show "stepper_position (TIMER1_COMPA_vect cfg inp s) a =
           (if 0 <s entry_counter b a s + steps_of a b
            then (if bit (direction_bits b) (DIRECTION_BIT cfg a)
                  then stepper_position s a - 1 else stepper_position s a + 1)
            else stepper_position s a)" if "pins_ok cfg"
    by (simp add: isr trace_line_position [OF that] ee)
qed

lemma direction_only_bit:
  assumes "pins_ok cfg" and "direction_only cfg b"
  shows "\<not> bit (direction_bits b) (STEP_BIT cfg a)"
proof
  assume d: "bit (direction_bits b) (STEP_BIT cfg a)"
  have m: "bit (STEPPING_MASK cfg) (STEP_BIT cfg a)"
    using assms(1) by (cases a) (auto simp: STEPPING_MASK_def pins_ok_def bit_or_iff bit_two_power)
  from d m have "bit (direction_bits b AND STEPPING_MASK cfg) (STEP_BIT cfg a)"
    by (simp add: bit_and_iff)
  then show False using assms(2) by (simp add: direction_only_def)
qed

lemma step_bit_inj:
  assumes "pins_ok cfg" and "STEP_BIT cfg a = STEP_BIT cfg a'"
  shows "a = a'"
  using assms by (cases a; cases a') (auto simp: pins_ok_def)

lemma step_bit_less:
  assumes "pins_ok cfg"
  shows "STEP_BIT cfg a < 8"
  using assms by (cases a) (auto simp: pins_ok_def)

lemma isr_step_int:
  assumes cfg: "pins_ok cfg" and mb: "motion_block b" and dir: "direction_only cfg b"
    and n: "uint (step_event_count b) < 2 ^ 31"
    and st: "\<And>a. steps_of a b \<le> step_event_count b"
    and ex: "executing b q s" and ls: "limit_stop cfg inp = None"
    and c: "\<And>a. - uint (step_event_count b) < sint (entry_counter b a s)
              \<and> sint (entry_counter b a s) \<le> 0"
    and s1: "s1 = TIMER1_COMPA_vect cfg inp s"
  shows "step_pattern cfg a s1 \<longleftrightarrow> 0 < sint (entry_counter b a s) + uint (steps_of a b)"
    and "sint (counter_of a s1) = sint (entry_counter b a s) + uint (steps_of a b)
           - (if step_pattern cfg a s1 then uint (step_event_count b) else 0)"
    and "- uint (step_event_count b) < sint (counter_of a s1)"
    and "sint (counter_of a s1) \<le> 0"
    and "stepper_position s1 a =
           (if step_pattern cfg a s1
            then (if bit (direction_bits b) (DIRECTION_BIT cfg a)
                  then stepper_position s a - 1 else stepper_position s a + 1)
            else stepper_position s a)"
proof -
  note w = bresenham_counter_step [OF n st conjunct1 [OF c] conjunct2 [OF c], of a a]
  have p: "step_pattern cfg a s1 \<longleftrightarrow> 0 <s entry_counter b a s + steps_of a b"
    unfolding step_pattern_def s1 isr_step(7) [OF ex mb ls]
    using direction_only_bit [OF cfg dir] step_bit_inj [OF cfg] step_bit_less [OF cfg]
    by auto
  show "step_pattern cfg a s1 \<longleftrightarrow> 0 < sint (entry_counter b a s) + uint (steps_of a b)"
    using p w(2) by simp
  have cnt: "counter_of a s1 =
           (if step_pattern cfg a s1
            then entry_counter b a s + steps_of a b - step_event_count b
            else entry_counter b a s + steps_of a b)"
    using isr_step(1) [OF ex mb ls, of a] p by (simp add: s1)
  show e: "sint (counter_of a s1) = sint (entry_counter b a s) + uint (steps_of a b)
           - (if step_pattern cfg a s1 then uint (step_event_count b) else 0)"
    using cnt p w by auto
  have le: "uint (steps_of a b) \<le> uint (step_event_count b)"
    using st [of a] by (simp add: word_le_def)
  have ge: "0 \<le> uint (steps_of a b)" by simp
  have pos: "step_pattern cfg a s1 \<longleftrightarrow> 0 < sint (entry_counter b a s) + uint (steps_of a b)"
    using p w(2) by simp
  show "- uint (step_event_count b) < sint (counter_of a s1)"
  proof (cases "step_pattern cfg a s1")
    case True
    with e pos have "sint (counter_of a s1)
        = sint (entry_counter b a s) + uint (steps_of a b) - uint (step_event_count b)"
      and "0 < sint (entry_counter b a s) + uint (steps_of a b)" by simp_all
    then show ?thesis by linarith
  next
    case False
    with e have "sint (counter_of a s1) = sint (entry_counter b a s) + uint (steps_of a b)"
      by simp
    then show ?thesis using c [of a] ge by linarith
  qed
  show "sint (counter_of a s1) \<le> 0"
  proof (cases "step_pattern cfg a s1")
    case True
    with e have "sint (counter_of a s1)
        = sint (entry_counter b a s) + uint (steps_of a b) - uint (step_event_count b)"
      by simp
    then show ?thesis using c [of a] le by linarith
  next
    case False
    with e pos have "sint (counter_of a s1) = sint (entry_counter b a s) + uint (steps_of a b)"
      and "\<not> 0 < sint (entry_counter b a s) + uint (steps_of a b)" by simp_all
    then show ?thesis by linarith
  qed
  show "stepper_position s1 a =
           (if step_pattern cfg a s1
            then (if bit (direction_bits b) (DIRECTION_BIT cfg a)
                  then stepper_position s a - 1 else stepper_position s a + 1)
            else stepper_position s a)"
    using isr_step(8) [OF ex mb ls cfg, of a] p by (simp add: s1)
qed

subsection \<open>A line from its first step event to its last\<close>

lemma events_word:
  fixes n :: u32
  assumes "Suc k \<le> unat n"
  shows "(of_nat k :: u32) + 1 = of_nat (Suc k)"
    and "(of_nat (Suc k) :: u32) < n \<longleftrightarrow> Suc k < unat n"
proof -
  show "(of_nat k :: u32) + 1 = of_nat (Suc k)" by simp
  have "unat (of_nat (Suc k) :: u32) = Suc k"
    using assms by (rule le_unat_uoi)
  then show "(of_nat (Suc k) :: u32) < n \<longleftrightarrow> Suc k < unat n"
    by (simp add: word_less_nat_alt)
qed

lemma pattern_count_Cons:
  "pattern_count cfg a (x # xs) = (if step_pattern cfg a x then 1 else 0) + pattern_count cfg a xs"
  by (simp add: pattern_count_def)

lemma run_block:
  assumes cfg: "pins_ok cfg" and mb: "motion_block b" and dir: "direction_only cfg b"
    and n: "uint (step_event_count b) < 2 ^ 31"
    and st: "\<And>a. steps_of a b \<le> step_event_count b"
  shows "executing b q s \<Longrightarrow> entry_events s = of_nat k \<Longrightarrow>
     (\<forall>a. - uint (step_event_count b) < sint (entry_counter b a s)
            \<and> sint (entry_counter b a s) \<le> 0) \<Longrightarrow>
     inps \<noteq> [] \<Longrightarrow> k + length inps \<le> unat (step_event_count b) \<Longrightarrow>
     (\<forall>inp \<in> set inps. limit_stop cfg inp = None) \<Longrightarrow>
       step_events_completed (run_isr cfg inps s) = of_nat (k + length inps)
     \<and> current_block (run_isr cfg inps s)
         = (if k + length inps < unat (step_event_count b) then Some b else None)
     \<and> planner_queue (run_isr cfg inps s)
         = (if k + length inps < unat (step_event_count b) then b # q else q)
     \<and> \<not> busy (run_isr cfg inps s) \<and> \<not> stop_requested (run_isr cfg inps s)
     \<and> sint (counter_of a (run_isr cfg inps s))
         = sint (entry_counter b a s) + int (length inps) * uint (steps_of a b)
           - int (pattern_count cfg a (isr_trace cfg inps s)) * uint (step_event_count b)
     \<and> - uint (step_event_count b) < sint (counter_of a (run_isr cfg inps s))
     \<and> sint (counter_of a (run_isr cfg inps s)) \<le> 0
     \<and> stepper_position (run_isr cfg inps s) a
         = (if bit (direction_bits b) (DIRECTION_BIT cfg a)
            then stepper_position s a - of_nat (pattern_count cfg a (isr_trace cfg inps s))
            else stepper_position s a + of_nat (pattern_count cfg a (isr_trace cfg inps s)))"
proof (induction inps arbitrary: s k)
  case Nil
  then show ?case by simp
next
  case (Cons inp rest)
  note IH = Cons.IH and prems = Cons.prems
  define s1 where "s1 = TIMER1_COMPA_vect cfg inp s"
  have ls: "limit_stop cfg inp = None" using Cons.prems(6) by simp
  have k: "Suc k \<le> unat (step_event_count b)" using Cons.prems(5) by simp
  have c0: "- uint (step_event_count b) < sint (entry_counter b a' s)
            \<and> sint (entry_counter b a' s) \<le> 0" for a'
    using Cons.prems(3) by simp
  note int = isr_step_int [OF cfg mb dir n st Cons.prems(1) ls c0 s1_def]
  note raw = isr_step [OF Cons.prems(1) mb ls, folded s1_def]
  have ev: "step_events_completed s1 = of_nat (Suc k)"
    using raw(2) Cons.prems(2) events_word(1) [OF k] by simp
  have blk: "current_block s1 = (if Suc k < unat (step_event_count b) then Some b else None)"
    and que: "planner_queue s1 = (if Suc k < unat (step_event_count b) then b # q else q)"
    using raw(3,4) Cons.prems(2) events_word [OF k] by simp_all
  show ?case
  proof (cases rest)
    case Nil
    show ?thesis
      using ev blk que raw(5,6) int [of a]
      by (simp add: Nil s1_def [symmetric] pattern_count_Cons pattern_count_def)
  next
    case (Cons inp' rest')
    then have more: "Suc k < unat (step_event_count b)"
      and len: "Suc k + length rest \<le> unat (step_event_count b)"
      using prems(5) by simp_all
    have ex1: "executing b q s1"
      using blk que raw(5,6) more by (simp add: executing_def)
    have ee1: "entry_events s1 = of_nat (Suc k)"
      using blk more ev by (simp add: entry_events_def)
    have ec1: "entry_counter b a' s1 = counter_of a' s1" for a'
      using blk more by (simp add: entry_counter_def)
    have c1: "\<forall>a'. - uint (step_event_count b) < sint (entry_counter b a' s1)
              \<and> sint (entry_counter b a' s1) \<le> 0"
      using int(3,4) by (simp add: ec1)
    have ne: "rest \<noteq> []" using Cons by simp
    have ls': "\<forall>i \<in> set rest. limit_stop cfg i = None"
      using prems(6) by simp
    note ih = IH [OF ex1 ee1 c1 ne len ls']
    have run: "run_isr cfg (inp # rest) s = run_isr cfg rest s1"
      and tr: "isr_trace cfg (inp # rest) s = s1 # isr_trace cfg rest s1"
      by (simp_all add: s1_def)
    let ?sf = "run_isr cfg rest s1" and ?p = "pattern_count cfg a (isr_trace cfg rest s1)"
    from ih [unfolded ec1] have i1: "step_events_completed ?sf = of_nat (Suc k + length rest)"
      and i2: "current_block ?sf
          = (if Suc k + length rest < unat (step_event_count b) then Some b else None)"
      and i3: "planner_queue ?sf
          = (if Suc k + length rest < unat (step_event_count b) then b # q else q)"
      and i4: "\<not> busy ?sf" "\<not> stop_requested ?sf"
      and i5: "sint (counter_of a ?sf)
          = sint (counter_of a s1) + int (length rest) * uint (steps_of a b)
            - int ?p * uint (step_event_count b)"
      and i6: "- uint (step_event_count b) < sint (counter_of a ?sf)"
        "sint (counter_of a ?sf) \<le> 0"
      and i7: "stepper_position ?sf a
          = (if bit (direction_bits b) (DIRECTION_BIT cfg a)
             then stepper_position s1 a - of_nat ?p else stepper_position s1 a + of_nat ?p)"
      by blast+
    have cnt: "sint (counter_of a ?sf)
        = sint (entry_counter b a s) + int (length (inp # rest)) * uint (steps_of a b)
          - int ((if step_pattern cfg a s1 then 1 else 0) + ?p) * uint (step_event_count b)"
      using i5 int(2) [of a] by (cases "step_pattern cfg a s1") (simp_all add: algebra_simps)
    have pos: "stepper_position ?sf a
        = (if bit (direction_bits b) (DIRECTION_BIT cfg a)
           then stepper_position s a - of_nat ((if step_pattern cfg a s1 then 1 else 0) + ?p)
           else stepper_position s a + of_nat ((if step_pattern cfg a s1 then 1 else 0) + ?p))"
      using i7 int(5) [of a] by (cases "step_pattern cfg a s1") simp_all
    show ?thesis
      unfolding run tr pattern_count_Cons
      using i1 i2 i3 i4 cnt i6 pos by simp
  qed
qed

lemma run_isr_append:
  "run_isr cfg (xs @ ys) s = run_isr cfg ys (run_isr cfg xs s)"
  by (induction xs arbitrary: s) simp_all

lemma fetch_entry:
  assumes "0 < step_event_count b" and "current_block s = None"
  shows "entry_events s = of_nat 0"
    and "- uint (step_event_count b) < sint (entry_counter b a s)
         \<and> sint (entry_counter b a s) \<le> 0"
proof -
  show "entry_events s = of_nat 0"
    using assms(2) by (simp add: entry_events_def)
  have "0 < uint (step_event_count b)"
    using assms(1) by (simp add: word_less_def)
  then have "uint (step_event_count b) div 2 < uint (step_event_count b)"
    and "0 \<le> uint (step_event_count b) div 2" by simp_all
  then show "- uint (step_event_count b) < sint (entry_counter b a s)
         \<and> sint (entry_counter b a s) \<le> 0"
    using assms(2) sint_neg_half [of "step_event_count b"]
    by (simp add: entry_counter_def)
qed

lemma bresenham_total:
  fixes n st p :: int
  assumes "0 < n" and "- n < - (n div 2) + n * st - p * n"
    and "- (n div 2) + n * st - p * n \<le> 0"
  shows "p = st"
proof -
  have h: "n div 2 < n" "0 \<le> n div 2" using assms(1) by simp_all
  have e: "n * st - p * n = n * (st - p)" by (simp add: algebra_simps)
  show ?thesis
  proof (rule ccontr)
    assume "p \<noteq> st"
    then consider "1 \<le> st - p" | "st - p \<le> - 1" by linarith
    then show False
    proof cases
      case 1
      then have "n * 1 \<le> n * (st - p)"
        using assms(1) by (intro mult_left_mono) simp_all
      then show False using assms(3) h e by linarith
    next
      case 2
      then have "n * (st - p) \<le> n * (- 1)"
        using assms(1) by (intro mult_left_mono) simp_all
      then show False using assms(2) h e by linarith
    qed
  qed
qed

subsection \<open>The state before each step event of a line\<close>

lemma run_events:
  assumes mb: "motion_block b"
  shows "executing b q s \<Longrightarrow> entry_events s = of_nat k \<Longrightarrow>
     k + length inps < unat (step_event_count b) \<Longrightarrow>
     \<forall>inp \<in> set inps. limit_stop cfg inp = None \<Longrightarrow>
       executing b q (run_isr cfg inps s)
     \<and> entry_events (run_isr cfg inps s) = of_nat (k + length inps)
     \<and> (inps \<noteq> [] \<longrightarrow> current_block (run_isr cfg inps s) = Some b)"
proof (induction inps arbitrary: s k)
  case Nil
  then show ?case by simp
next
  case (Cons inp rest)
  define s1 where "s1 = TIMER1_COMPA_vect cfg inp s"
  have ls: "limit_stop cfg inp = None" using Cons.prems(4) by simp
  have k: "Suc k \<le> unat (step_event_count b)" and more: "Suc k < unat (step_event_count b)"
    using Cons.prems(3) by simp_all
  note raw = isr_step [OF Cons.prems(1) mb ls, folded s1_def]
  have ev: "step_events_completed s1 = of_nat (Suc k)"
    using raw(2) Cons.prems(2) events_word(1) [OF k] by simp
  have blk: "current_block s1 = Some b" and que: "planner_queue s1 = b # q"
    using raw(3,4) Cons.prems(2) events_word [OF k] more by simp_all
  have ex1: "executing b q s1"
    using blk que raw(5,6) by (simp add: executing_def)
  have ee1: "entry_events s1 = of_nat (Suc k)"
    using blk ev by (simp add: entry_events_def)
  have len: "Suc k + length rest < unat (step_event_count b)"
    using Cons.prems(3) by simp
  have ls': "\<forall>i \<in> set rest. limit_stop cfg i = None"
    using Cons.prems(4) by simp
  note ih = Cons.IH [OF ex1 ee1 len ls']
  have run: "run_isr cfg (inp # rest) s = run_isr cfg rest s1"
    by (simp add: s1_def)
  show ?case
  proof (cases "rest = []")
    case True
    then show ?thesis using ex1 ee1 blk by (simp add: s1_def [symmetric])
  next
    case False
    then show ?thesis unfolding run using ih by simp
  qed
qed

lemma isr_step_bounds:
  assumes mb: "motion_block b" and n: "uint (step_event_count b) < 2 ^ 31"
    and st: "steps_of a b \<le> step_event_count b"
    and ex: "executing b q s" and ls: "limit_stop cfg inp = None"
    and c: "- uint (step_event_count b) < sint (entry_counter b a s)"
      "sint (entry_counter b a s) \<le> 0"
  shows "- uint (step_event_count b) < sint (entry_counter b a s + steps_of a b)"
    and "sint (entry_counter b a s + steps_of a b) \<le> uint (step_event_count b)"
    and "- uint (step_event_count b) < sint (counter_of a (TIMER1_COMPA_vect cfg inp s))"
    and "sint (counter_of a (TIMER1_COMPA_vect cfg inp s)) \<le> 0"
proof -
  note w = bresenham_counter_step [OF n st c]
  have le: "uint (steps_of a b) \<le> uint (step_event_count b)"
    using st by (simp add: word_le_def)
  have ge: "0 \<le> uint (steps_of a b)" by simp
  have m: "sint (entry_counter b a s + steps_of a b)
      = sint (entry_counter b a s) + uint (steps_of a b)"
    by (rule w(1))
  show "- uint (step_event_count b) < sint (entry_counter b a s + steps_of a b)"
    using m c ge by linarith
  show "sint (entry_counter b a s + steps_of a b) \<le> uint (step_event_count b)"
    using m c le by linarith
  have "- uint (step_event_count b) < sint (counter_of a (TIMER1_COMPA_vect cfg inp s))
      \<and> sint (counter_of a (TIMER1_COMPA_vect cfg inp s)) \<le> 0"
  proof (cases "0 <s entry_counter b a s + steps_of a b")
    case True
    then have "sint (counter_of a (TIMER1_COMPA_vect cfg inp s))
        = sint (entry_counter b a s) + uint (steps_of a b) - uint (step_event_count b)"
      and "0 < sint (entry_counter b a s) + uint (steps_of a b)"
      using isr_step(1) [OF ex mb ls, of a] w(2,3) by simp_all
    then show ?thesis using c le by (intro conjI; linarith)
  next
    case False
    then have "sint (counter_of a (TIMER1_COMPA_vect cfg inp s))
        = sint (entry_counter b a s) + uint (steps_of a b)"
      and "\<not> 0 < sint (entry_counter b a s) + uint (steps_of a b)"
      using isr_step(1) [OF ex mb ls, of a] w(1,2) by simp_all
    then show ?thesis using c ge by (intro conjI; linarith)
  qed
  then show "- uint (step_event_count b) < sint (counter_of a (TIMER1_COMPA_vect cfg inp s))"
    and "sint (counter_of a (TIMER1_COMPA_vect cfg inp s)) \<le> 0"
    by blast+
qed

lemma run_counters:
  assumes mb: "motion_block b"
    and n0: "0 < step_event_count b" and n: "uint (step_event_count b) < 2 ^ 31"
    and st: "steps_of a b \<le> step_event_count b"
    and s: "\<not> busy s" "\<not> stop_requested s" "current_block s = None"
      "planner_queue s = b # q"
  shows "length inps < unat (step_event_count b) \<Longrightarrow>
     \<forall>inp \<in> set inps. limit_stop cfg inp = None \<Longrightarrow>
       - uint (step_event_count b) < sint (entry_counter b a (run_isr cfg inps s))
     \<and> sint (entry_counter b a (run_isr cfg inps s)) \<le> 0"
proof (induction inps rule: rev_induct)
  case Nil
  then show ?case using fetch_entry(2) [OF n0 s(3)] by simp
next
  case (snoc inp rest)
  have ex: "executing b q s" using s by (simp add: executing_def)
  have e0: "entry_events s = of_nat 0" using s(3) by (simp add: entry_events_def)
  have len: "0 + length rest < unat (step_event_count b)"
    and len1: "0 + length (rest @ [inp]) < unat (step_event_count b)"
    using snoc.prems(1) by simp_all
  have ls: "\<forall>i \<in> set rest. limit_stop cfg i = None" and ls1: "limit_stop cfg inp = None"
    and lsa: "\<forall>i \<in> set (rest @ [inp]). limit_stop cfg i = None"
    using snoc.prems(2) by simp_all
  from run_events [OF mb ex e0 len ls]
  have exr: "executing b q (run_isr cfg rest s)" by blast
  from run_events [OF mb ex e0 len1 lsa]
  have cur: "current_block (run_isr cfg (rest @ [inp]) s) = Some b" by simp
  from snoc.IH len ls
  have c: "- uint (step_event_count b) < sint (entry_counter b a (run_isr cfg rest s))"
    "sint (entry_counter b a (run_isr cfg rest s)) \<le> 0" by simp_all
  note b = isr_step_bounds(3,4) [OF mb n st exr ls1 c]
  have "entry_counter b a (run_isr cfg (rest @ [inp]) s)
      = counter_of a (TIMER1_COMPA_vect cfg inp (run_isr cfg rest s))"
    using cur by (simp add: entry_counter_def run_isr_append)
  then show ?case using b by simp
qed

lemma isr_step_pattern:
  assumes cfg: "pins_ok cfg" and mb: "motion_block b" and dir: "direction_only cfg b"
    and ex: "executing b q s" and ls: "limit_stop cfg inp = None"
  shows "step_pattern cfg a (TIMER1_COMPA_vect cfg inp s)
           \<longleftrightarrow> 0 <s entry_counter b a s + steps_of a b"
  unfolding step_pattern_def isr_step(7) [OF ex mb ls]
  using direction_only_bit [OF cfg dir] step_bit_inj [OF cfg] step_bit_less [OF cfg]
  by auto


subsection \<open>The rate along the speed profile\<close>

lemma accelerating_rate:
  "adjusted_rate (accelerating cfg b s) =
     (if fst (acceleration_tick cfg s)
      then (if nominal_rate b < adjusted_rate s + rate_delta b then nominal_rate b
            else adjusted_rate s + rate_delta b)
      else adjusted_rate s)"
  by (simp add: accelerating_def Let_def split_beta)

lemma decelerating_rate:
  "adjusted_rate (decelerating cfg b s) =
     (if fst (acceleration_tick cfg s)
      then (if (if rate_delta b < adjusted_rate s then adjusted_rate s - rate_delta b else 0)
                 < final_rate b
            then final_rate b
            else (if rate_delta b < adjusted_rate s then adjusted_rate s - rate_delta b
                  else 0))
      else adjusted_rate s)"
  by (simp add: decelerating_def Let_def split_beta)

lemma cruising_rate:
  "adjusted_rate (cruising cfg b s) = nominal_rate b"
  by (simp add: cruising_def Let_def serial_raster_read_def control_laser_intensity_def)

lemma rate_after_acceleration:
  fixes r d nom lo :: u32
  assumes lo: "lo \<le> r" and nom: "r \<le> nom" and nw: "uint nom + uint d < 2 ^ 32"
  shows "lo \<le> (if nom < r + d then nom else r + d)"
    and "(if nom < r + d then nom else r + d) \<le> nom"
proof -
  have l: "uint lo \<le> uint r" and u: "uint r \<le> uint nom"
    using lo nom by (simp_all add: word_le_def)
  have d0: "0 \<le> uint d" by simp
  have "uint r + uint d < 2 ^ LENGTH(32)" using u nw by simp
  then have e: "uint (r + d) = uint r + uint d" by (simp only: uint_add_lem)
  show "lo \<le> (if nom < r + d then nom else r + d)"
  proof (cases "nom < r + d")
    case True
    then show ?thesis using lo nom by simp
  next
    case False
    have "uint lo \<le> uint (r + d)" unfolding e using l d0 by linarith
    then show ?thesis using False by (simp add: word_le_def)
  qed
  show "(if nom < r + d then nom else r + d) \<le> nom"
    by (simp add: not_less)
qed

lemma rate_after_deceleration:
  fixes r d nom lo fin :: u32
  assumes lo: "lo \<le> r" and nom: "r \<le> nom" and f: "lo \<le> fin" "fin \<le> nom"
  shows "lo \<le> (if (if d < r then r - d else 0) < fin then fin
                else (if d < r then r - d else 0))"
    and "(if (if d < r then r - d else 0) < fin then fin
          else (if d < r then r - d else 0)) \<le> nom"
proof -
  let ?r1 = "if d < r then r - d else 0"
  have d0: "0 \<le> uint d" by simp
  have r1: "?r1 \<le> r"
  proof (cases "d < r")
    case True
    then have "uint d \<le> uint r" by (simp add: word_less_def)
    then have "uint (r - d) = uint r - uint d" by (simp only: uint_sub_lem)
    then have "uint (r - d) \<le> uint r" using d0 by linarith
    then show ?thesis using True by (simp add: word_le_def)
  next
    case False
    then show ?thesis by simp
  qed
  show "lo \<le> (if ?r1 < fin then fin else ?r1)"
  proof (cases "?r1 < fin")
    case True
    then show ?thesis using f by simp
  next
    case False
    then have "fin \<le> ?r1" by simp
    with f(1) have "lo \<le> ?r1" by (rule order_trans)
    then show ?thesis using False by simp
  qed
  show "(if ?r1 < fin then fin else ?r1) \<le> nom"
  proof (cases "?r1 < fin")
    case True
    then show ?thesis using f by simp
  next
    case False
    from r1 nom have "?r1 \<le> nom" by (rule order_trans)
    then show ?thesis using False by simp
  qed
qed

lemma speed_adjustment_rate:
  assumes f: "MINIMUM_STEPS_PER_MINUTE cfg \<le> final_rate b" "final_rate b \<le> nominal_rate b"
    and nw: "uint (nominal_rate b) + uint (rate_delta b) < 2 ^ 32"
    and r: "MINIMUM_STEPS_PER_MINUTE cfg \<le> adjusted_rate s" "adjusted_rate s \<le> nominal_rate b"
  shows "MINIMUM_STEPS_PER_MINUTE cfg \<le> adjusted_rate (speed_adjustment cfg b s)
    \<and> adjusted_rate (speed_adjustment cfg b s) \<le> nominal_rate b"
proof -
  have nom: "MINIMUM_STEPS_PER_MINUTE cfg \<le> nominal_rate b" using f by simp
  note a = rate_after_acceleration [OF r nw]
  note d = rate_after_deceleration [OF r f, of "rate_delta b"]
  show ?thesis
    using r nom a d
    by (simp add: speed_adjustment_def accelerating_rate decelerating_rate cruising_rate
        planner_discard_current_block_def serial_consume_data_def)
qed

lemma isr_step_rate:
  assumes ex: "executing b q s" and mb: "motion_block b" and ls: "limit_stop cfg inp = None"
    and f: "MINIMUM_STEPS_PER_MINUTE cfg \<le> final_rate b" "final_rate b \<le> nominal_rate b"
    and nw: "uint (nominal_rate b) + uint (rate_delta b) < 2 ^ 32"
    and r: "MINIMUM_STEPS_PER_MINUTE cfg \<le> entry_rate b s" "entry_rate b s \<le> nominal_rate b"
  shows "MINIMUM_STEPS_PER_MINUTE cfg \<le> adjusted_rate (TIMER1_COMPA_vect cfg inp s)
    \<and> adjusted_rate (TIMER1_COMPA_vect cfg inp s) \<le> nominal_rate b"
proof -
  let ?t = "(trace_line cfg b (event_entry cfg inp b s))
              \<lparr>step_events_completed := step_events_completed (event_entry cfg inp b s) + 1,
               out_bits := out_bits (trace_line cfg b (event_entry cfg inp b s))
                             XOR INVERT_MASK cfg\<rparr>"
  have isr: "TIMER1_COMPA_vect cfg inp s = (speed_adjustment cfg b ?t)\<lparr>busy := False\<rparr>"
    by (simp add: isr_executing [OF ex ls] process_block_motion [OF mb])
  have t: "adjusted_rate ?t = entry_rate b s"
    by (simp add: event_entry_fields(3) [OF ex mb])
  from speed_adjustment_rate [OF f nw, of ?t] r
  show ?thesis unfolding isr t by simp
qed

lemma run_rate:
  assumes mb: "motion_block b"
    and i: "MINIMUM_STEPS_PER_MINUTE cfg \<le> initial_rate b" "initial_rate b \<le> nominal_rate b"
    and f: "MINIMUM_STEPS_PER_MINUTE cfg \<le> final_rate b" "final_rate b \<le> nominal_rate b"
    and nw: "uint (nominal_rate b) + uint (rate_delta b) < 2 ^ 32"
    and s: "\<not> busy s" "\<not> stop_requested s" "current_block s = None"
      "planner_queue s = b # q"
  shows "inps \<noteq> [] \<Longrightarrow> length inps \<le> unat (step_event_count b) \<Longrightarrow>
     \<forall>inp \<in> set inps. limit_stop cfg inp = None \<Longrightarrow>
       MINIMUM_STEPS_PER_MINUTE cfg \<le> adjusted_rate (run_isr cfg inps s)
     \<and> adjusted_rate (run_isr cfg inps s) \<le> nominal_rate b"
proof (induction inps rule: rev_induct)
  case Nil
  then show ?case by simp
next
  case (snoc inp rest)
  have ex: "executing b q s" using s by (simp add: executing_def)
  have e0: "entry_events s = of_nat 0" using s(3) by (simp add: entry_events_def)
  have len: "0 + length rest < unat (step_event_count b)"
    using snoc.prems(2) by simp
  have ls: "\<forall>i \<in> set rest. limit_stop cfg i = None" and ls1: "limit_stop cfg inp = None"
    using snoc.prems(3) by simp_all
  from run_events [OF mb ex e0 len ls]
  have exr: "executing b q (run_isr cfg rest s)"
    and cur: "rest \<noteq> [] \<longrightarrow> current_block (run_isr cfg rest s) = Some b"
    by blast+
  have r: "MINIMUM_STEPS_PER_MINUTE cfg \<le> entry_rate b (run_isr cfg rest s)
      \<and> entry_rate b (run_isr cfg rest s) \<le> nominal_rate b"
  proof (cases "rest = []")
    case True
    then show ?thesis using i s(3) by (simp add: entry_rate_def)
  next
    case False
    then have "entry_rate b (run_isr cfg rest s) = adjusted_rate (run_isr cfg rest s)"
      using cur by (simp add: entry_rate_def)
    moreover have "length rest \<le> unat (step_event_count b)" using len by simp
    ultimately show ?thesis using snoc.IH [OF False _ ls] by simp
  qed
  from isr_step_rate [OF exr mb ls1 f nw conjunct1 [OF r] conjunct2 [OF r]]
  show ?case by (simp add: run_isr_append)
qed


subsection \<open>The raster bytes of a raster line\<close>

lemma cruising_raster:
  "raster (cruising cfg b s) =
     (if btype b = TYPE_RASTER_LINE \<and> step_events_completed s mod ucast (pixel_steps b) = 0
      then (\<lambda>i. raster s (Suc i)) else raster s)"
  "btype b = TYPE_RASTER_LINE \<Longrightarrow> step_events_completed s mod ucast (pixel_steps b) = 0 \<Longrightarrow>
     laser_intensity (cruising cfg b s) = raster_intensity (raster s 0) (nominal_laser_intensity b)"
  by (auto simp: cruising_def Let_def serial_raster_read_def control_laser_intensity_def)

lemma isr_step_raster:
  assumes ex: "executing b q s" and rb: "btype b = TYPE_RASTER_LINE"
    and ls: "limit_stop cfg inp = None"
    and e: "entry_events s + 1 < step_event_count b"
  shows "accelerate_until b \<le> entry_events s + 1 \<Longrightarrow>
         entry_events s + 1 < decelerate_after b \<Longrightarrow>
         (entry_events s + 1) mod ucast (pixel_steps b) = 0 \<Longrightarrow>
           raster (TIMER1_COMPA_vect cfg inp s) = (\<lambda>i. raster s (Suc i))
           \<and> laser_intensity (TIMER1_COMPA_vect cfg inp s)
               = raster_intensity (raster s 0) (nominal_laser_intensity b)"
    and "(entry_events s + 1) mod ucast (pixel_steps b) \<noteq> 0 \<Longrightarrow>
           raster (TIMER1_COMPA_vect cfg inp s) = raster s"
proof -
  have mb: "motion_block b" using rb by (simp add: motion_block_def)
  let ?t = "(trace_line cfg b (event_entry cfg inp b s))
              \<lparr>step_events_completed := step_events_completed (event_entry cfg inp b s) + 1,
               out_bits := out_bits (trace_line cfg b (event_entry cfg inp b s))
                             XOR INVERT_MASK cfg\<rparr>"
  have isr: "TIMER1_COMPA_vect cfg inp s = (speed_adjustment cfg b ?t)\<lparr>busy := False\<rparr>"
    by (simp add: isr_executing [OF ex ls] process_block_motion [OF mb])
  have t: "step_events_completed ?t = entry_events s + 1" "raster ?t = raster s"
    by (simp_all add: event_entry_fields [OF ex mb])
  show "raster (TIMER1_COMPA_vect cfg inp s) = (\<lambda>i. raster s (Suc i))
           \<and> laser_intensity (TIMER1_COMPA_vect cfg inp s)
               = raster_intensity (raster s 0) (nominal_laser_intensity b)"
    if "accelerate_until b \<le> entry_events s + 1"
      and "entry_events s + 1 < decelerate_after b"
      and "(entry_events s + 1) mod ucast (pixel_steps b) = 0"
  proof -
    have "speed_adjustment cfg b ?t = cruising cfg b ?t"
      using e that(1,2) t(1) by (auto simp: speed_adjustment_def)
    then show ?thesis
      unfolding isr using rb that(3) t by (simp add: cruising_raster)
  qed
  show "raster (TIMER1_COMPA_vect cfg inp s) = raster s"
    if "(entry_events s + 1) mod ucast (pixel_steps b) \<noteq> 0"
    unfolding isr using e that t
    by (simp add: speed_adjustment_def cruising_raster)
qed

lemma event_number:
  assumes m: "Suc m \<le> 30"
  shows "(of_nat (Suc m) :: u32) < 100"
    and "(of_nat (Suc m) :: u32) mod ucast (10 :: u8) = 0 \<longleftrightarrow> Suc m mod 10 = 0"
    and "10 \<le> Suc m \<Longrightarrow> (10 :: u32) \<le> of_nat (Suc m)"
    and "(of_nat (Suc m) :: u32) \<le> 30"
proof -
  have u: "unat (of_nat (Suc m) :: u32) = Suc m"
    using m by (intro le_unat_uoi [where z = "30 :: u32"]) simp
  have "unat (of_nat (Suc m) :: u32) < unat (100 :: u32)" unfolding u using m by simp
  then show "(of_nat (Suc m) :: u32) < 100" by (simp only: word_less_nat_alt)
  have c: "(ucast (10 :: u8) :: u32) = 10" by simp
  have "unat ((of_nat (Suc m) :: u32) mod 10) = Suc m mod 10"
    unfolding unat_mod u by simp
  then show "(of_nat (Suc m) :: u32) mod ucast (10 :: u8) = 0 \<longleftrightarrow> Suc m mod 10 = 0"
    unfolding c by (metis unat_eq_zero)
  have "unat (of_nat (Suc m) :: u32) \<le> unat (30 :: u32)" unfolding u using m by simp
  then show "(of_nat (Suc m) :: u32) \<le> 30" by (simp only: word_le_nat_alt)
  show "(10 :: u32) \<le> of_nat (Suc m)" if "10 \<le> Suc m"
  proof -
    have "unat (10 :: u32) \<le> unat (of_nat (Suc m) :: u32)" unfolding u using that by simp
    then show ?thesis by (simp only: word_le_nat_alt)
  qed
qed

lemma div10_step:
  "Suc m mod 10 = 0 \<Longrightarrow> Suc m div 10 = Suc (m div 10)"
  "Suc m mod 10 \<noteq> 0 \<Longrightarrow> Suc m div 10 = m div 10"
  "Suc m mod 10 = 0 \<Longrightarrow> 10 \<le> Suc m"
  by (simp_all add: div_Suc) presburger

lemma raster_scenario_run:
  assumes rb: "btype b = TYPE_RASTER_LINE"
    and b: "pixel_steps b = 10" "step_event_count b = 100"
    and ph: "accelerate_until b \<le> 10" "30 < decelerate_after b"
    and s: "\<not> busy s" "\<not> stop_requested s" "current_block s = None"
      "planner_queue s = b # q"
  shows "length inps \<le> 30 \<Longrightarrow> \<forall>inp \<in> set inps. limit_stop cfg inp = None \<Longrightarrow>
       raster (run_isr cfg inps s) = (\<lambda>i. raster s (i + length inps div 10))
     \<and> (inps \<noteq> [] \<and> length inps mod 10 = 0 \<longrightarrow>
          laser_intensity (run_isr cfg inps s)
            = raster_intensity (raster s (length inps div 10 - 1))
                (nominal_laser_intensity b))"
proof (induction inps rule: rev_induct)
  case Nil
  then show ?case by simp
next
  case (snoc inp rest)
  let ?m = "length rest" and ?sm = "run_isr cfg rest s"
  have mb: "motion_block b" using rb by (simp add: motion_block_def)
  have ex: "executing b q s" using s by (simp add: executing_def)
  have e0: "entry_events s = of_nat 0" using s(3) by (simp add: entry_events_def)
  have m: "Suc ?m \<le> 30" using snoc.prems(1) by simp
  have len: "0 + ?m < unat (step_event_count b)" using m b(2) by simp
  have ls: "\<forall>i \<in> set rest. limit_stop cfg i = None" and ls1: "limit_stop cfg inp = None"
    using snoc.prems(2) by simp_all
  from run_events [OF mb ex e0 len ls]
  have exr: "executing b q ?sm" and ev: "entry_events ?sm = of_nat ?m" by simp_all
  from snoc.IH m ls
  have ih: "raster ?sm = (\<lambda>i. raster s (i + ?m div 10))" by simp
  note w = event_number [OF m]
  have e1: "entry_events ?sm + 1 = of_nat (Suc ?m)" using ev by simp
  have un: "entry_events ?sm + 1 < step_event_count b"
    unfolding e1 b(2) by (rule w(1))
  have md: "(entry_events ?sm + 1) mod ucast (pixel_steps b) = 0 \<longleftrightarrow> Suc ?m mod 10 = 0"
    unfolding e1 b(1) by (rule w(2))
  note step = isr_step_raster [OF exr rb ls1 un]
  have run: "run_isr cfg (rest @ [inp]) s = TIMER1_COMPA_vect cfg inp ?sm"
    by (simp add: run_isr_append)
  show ?case
  proof (cases "Suc ?m mod 10 = 0")
    case True
    then have ten: "10 \<le> Suc ?m" by (rule div10_step(3))
    have "(10 :: u32) \<le> of_nat (Suc ?m)" using ten by (rule w(3))
    with ph(1) have a: "accelerate_until b \<le> entry_events ?sm + 1"
      unfolding e1 by (rule order_trans)
    have d: "entry_events ?sm + 1 < decelerate_after b"
      unfolding e1 using w(4) ph(2) by (rule order_le_less_trans)
    from step(1) [OF a d] md True
    have r: "raster (TIMER1_COMPA_vect cfg inp ?sm) = (\<lambda>i. raster ?sm (Suc i))"
      and l: "laser_intensity (TIMER1_COMPA_vect cfg inp ?sm)
               = raster_intensity (raster ?sm 0) (nominal_laser_intensity b)"
      by simp_all
    from True have dv: "length (rest @ [inp]) div 10 = Suc (?m div 10)"
      unfolding length_append_singleton by (rule div10_step(1))
    have r': "raster (TIMER1_COMPA_vect cfg inp ?sm) = (\<lambda>i. raster s (i + Suc (?m div 10)))"
      unfolding r ih by simp
    have l': "laser_intensity (TIMER1_COMPA_vect cfg inp ?sm)
        = raster_intensity (raster s (Suc (?m div 10) - 1)) (nominal_laser_intensity b)"
      unfolding l ih by simp
    show ?thesis
      unfolding run dv by (intro conjI impI r' l')
  next
    case False
    then have dv: "length (rest @ [inp]) div 10 = ?m div 10"
      unfolding length_append_singleton by (rule div10_step(2))
    from False have md1: "length (rest @ [inp]) mod 10 \<noteq> 0"
      unfolding length_append_singleton .
    from md False have "(entry_events ?sm + 1) mod ucast (pixel_steps b) \<noteq> 0" by simp
    then have "raster (TIMER1_COMPA_vect cfg inp ?sm) = raster ?sm" by (rule step(2))
    then have r': "raster (TIMER1_COMPA_vect cfg inp ?sm) = (\<lambda>i. raster s (i + ?m div 10))"
      unfolding ih .
    show ?thesis
      unfolding run dv
    proof (intro conjI impI)
      show "raster (TIMER1_COMPA_vect cfg inp ?sm) = (\<lambda>i. raster s (i + ?m div 10))"
        by (rule r')
    next
      assume "rest @ [inp] \<noteq> [] \<and> length (rest @ [inp]) mod 10 = 0"
      then have False using md1 by (elim conjE) (rule notE)
      then show "laser_intensity (TIMER1_COMPA_vect cfg inp ?sm)
          = raster_intensity (raster s (?m div 10 - 1)) (nominal_laser_intensity b)" ..
    qed
  qed
qed

text \<open>The intensity of a raster byte as a number.\<close>

lemma unat_u8_less:
  fixes c :: u8
  shows "unat c < 256"
proof -
  have "unat c < 2 ^ LENGTH(8)" by (rule unsigned_less)
  then show ?thesis by simp
qed

lemma ucast_8_16:
  fixes c :: u8
  shows "unat (ucast c :: u16) = unat c"
proof -
  have "unat c < 2 ^ 16" using unat_u8_less [of c] by simp
  then show ?thesis by (simp add: unsigned_ucast_eq take_bit_nat_eq_self)
qed

lemma raster_product:
  fixes chr i :: u8
  assumes c: "128 \<le> chr" and p: "(unat chr - 128) * 2 * unat i < 32768"
  shows "unat (((ucast chr :: u16) - 128) * 2 * (ucast i :: u16)) = (unat chr - 128) * 2 * unat i"
proof -
  have c': "128 \<le> unat chr" using c by (simp add: word_le_nat_alt)
  have "(128 :: u16) \<le> ucast chr" using c' by (simp add: word_le_nat_alt ucast_8_16)
  then have s: "unat ((ucast chr :: u16) - 128) = unat chr - 128"
    by (simp add: unat_sub ucast_8_16)
  have l: "(unat chr - 128) * 2 < 65536" using unat_u8_less [of chr] by simp
  have "unat (((ucast chr :: u16) - 128) * 2)
      = unat ((ucast chr :: u16) - 128) * unat (2 :: u16) mod 2 ^ LENGTH(16)"
    by (rule unat_word_ariths)
  then have m: "unat (((ucast chr :: u16) - 128) * 2) = (unat chr - 128) * 2"
    using l s by simp
  have "unat (((ucast chr :: u16) - 128) * 2 * (ucast i :: u16))
      = unat (((ucast chr :: u16) - 128) * 2) * unat (ucast i :: u16) mod 2 ^ LENGTH(16)"
    by (rule unat_word_ariths)
  then show ?thesis
    using p m by (simp add: ucast_8_16)
qed

lemma sint_small16:
  fixes w :: "16 word"
  assumes "uint w < 2 ^ 15"
  shows "sint w = uint w"
proof -
  have "- (2 ^ 15) \<le> (0::int)" by simp
  also have "0 \<le> uint w" by simp
  finally have "- (2 ^ 15) \<le> uint w" .
  then have "signed_take_bit 15 (uint w) = uint w"
    using assms by (rule signed_take_bit_int_eq_self)
  then show ?thesis by (simp add: sint_uint)
qed

lemma raster_intensity_exact:
  fixes chr i :: u8
  assumes c: "128 \<le> chr" and p: "(unat chr - 128) * 2 * unat i < 32768"
  shows "unat (raster_intensity chr i) = (unat chr - 128) * 2 * unat i div 255"
proof -
  define w :: u16 where "w = ((ucast chr :: u16) - 128) * 2 * (ucast i :: u16)"
  define n where "n = (unat chr - 128) * 2 * unat i"
  have u: "unat w = n" unfolding w_def n_def by (rule raster_product [OF c p])
  have n: "n < 32768" using p by (simp add: n_def)
  have "nat (uint w) = n" using u by (simp only: unat_eq_nat_uint)
  then have "int (nat (uint w)) = int n" by (rule arg_cong)
  then have ui: "uint w = int n" by simp
  have "uint w < 2 ^ 15" unfolding ui using n by simp
  then have "sint w = uint w" by (rule sint_small16)
  then have s: "sint w = int n" unfolding ui .
  have q: "int n sdiv 255 = int (n div 255)"
    by (cases "n = 0") (simp_all add: signed_divide_int_def zdiv_int)
  have l: "n div 255 < 256" using n by simp
  have r: "raster_intensity chr i = word_of_int (int (n div 255))"
    unfolding raster_intensity_def Let_def w_def [symmetric] s q by (rule refl)
  have "unat (word_of_int (int (n div 255)) :: u8) = n div 255"
    using l by (simp add: unat_of_nat take_bit_nat_eq_self)
  then show ?thesis unfolding r n_def .
qed

lemma raster_intensity_below_nominal:
  fixes chr i :: u8
  assumes c: "128 \<le> chr" and p: "(unat chr - 128) * 2 * unat i < 32768" and i: "0 < i"
  shows "raster_intensity chr i < i"
proof -
  have i': "0 < unat i" using i by (simp add: word_less_nat_alt)
  have "unat chr - 128 \<le> 127" using unat_u8_less [of chr] by simp
  then have "(unat chr - 128) * 2 * unat i \<le> 254 * unat i" by simp
  then have "(unat chr - 128) * 2 * unat i div 255 \<le> 254 * unat i div 255"
    by (rule div_le_mono)
  also have "254 * unat i div 255 < unat i" using i' by simp
  finally show ?thesis
    unfolding raster_intensity_exact [OF c p, symmetric] by (simp add: word_less_nat_alt)
qed

subsection \<open>The tiers of the timer configuration\<close>









subsection \<open>The homing cycle, axis by axis\<close>




lemma stepping_mask_bit:
  assumes "pins_ok cfg"
  shows "bit (STEPPING_MASK cfg) (STEP_BIT cfg a)"
  using assms
  by (cases a; simp add: STEPPING_MASK_def pins_ok_def bit_or_iff bit_two_power)








subsection \<open>The stepping port\<close>

text \<open>
  The step interrupt reads the stepping port only to write it: apart from the port, what
  an invocation does is the same whatever the port holds.
\<close>

lemma set_port_fields [simp]:
  "stepper_position (set_port p s) = stepper_position s"
  "current_block (set_port p s) = current_block s"
  "out_bits (set_port p s) = out_bits s"
  "counter_x (set_port p s) = counter_x s"
  "counter_y (set_port p s) = counter_y s"
  "counter_z (set_port p s) = counter_z s"
  "step_events_completed (set_port p s) = step_events_completed s"
  "busy (set_port p s) = busy s"
  "cycles_per_step_event (set_port p s) = cycles_per_step_event s"
  "acceleration_tick_counter (set_port p s) = acceleration_tick_counter s"
  "adjusted_rate (set_port p s) = adjusted_rate s"
  "processing_flag (set_port p s) = processing_flag s"
  "stop_requested (set_port p s) = stop_requested s"
  "stop_status (set_port p s) = stop_status s"
  "OCIE1A (set_port p s) = OCIE1A s"
  "CS1 (set_port p s) = CS1 s"
  "OCR1A (set_port p s) = OCR1A s"
  "planner_queue (set_port p s) = planner_queue s"
  "laser_intensity (set_port p s) = laser_intensity s"
  "air_assist (set_port p s) = air_assist s"
  "aux1_assist (set_port p s) = aux1_assist s"
  "aux2_assist (set_port p s) = aux2_assist s"
  "serial_stopped (set_port p s) = serial_stopped s"
  "serial_consumed (set_port p s) = serial_consumed s"
  "raster (set_port p s) = raster s"
  "STEPPING_PORT (set_port p s) = p"
  by (simp_all add: set_port_def)

lemma set_port_updates [simp]:
  "(set_port p s)\<lparr>stepper_position := vsteppe0\<rparr> = set_port p (s\<lparr>stepper_position := vsteppe0\<rparr>)"
  "(set_port p s)\<lparr>current_block := vcurren1\<rparr> = set_port p (s\<lparr>current_block := vcurren1\<rparr>)"
  "(set_port p s)\<lparr>out_bits := voutbit2\<rparr> = set_port p (s\<lparr>out_bits := voutbit2\<rparr>)"
  "(set_port p s)\<lparr>counter_x := vcounte3\<rparr> = set_port p (s\<lparr>counter_x := vcounte3\<rparr>)"
  "(set_port p s)\<lparr>counter_y := vcounte4\<rparr> = set_port p (s\<lparr>counter_y := vcounte4\<rparr>)"
  "(set_port p s)\<lparr>counter_z := vcounte5\<rparr> = set_port p (s\<lparr>counter_z := vcounte5\<rparr>)"
  "(set_port p s)\<lparr>step_events_completed := vstepev6\<rparr> = set_port p (s\<lparr>step_events_completed := vstepev6\<rparr>)"
  "(set_port p s)\<lparr>busy := vbusy7\<rparr> = set_port p (s\<lparr>busy := vbusy7\<rparr>)"
  "(set_port p s)\<lparr>cycles_per_step_event := vcycles8\<rparr> = set_port p (s\<lparr>cycles_per_step_event := vcycles8\<rparr>)"
  "(set_port p s)\<lparr>acceleration_tick_counter := vaccele9\<rparr> = set_port p (s\<lparr>acceleration_tick_counter := vaccele9\<rparr>)"
  "(set_port p s)\<lparr>adjusted_rate := vadjust10\<rparr> = set_port p (s\<lparr>adjusted_rate := vadjust10\<rparr>)"
  "(set_port p s)\<lparr>processing_flag := vproces11\<rparr> = set_port p (s\<lparr>processing_flag := vproces11\<rparr>)"
  "(set_port p s)\<lparr>stop_requested := vstopre12\<rparr> = set_port p (s\<lparr>stop_requested := vstopre12\<rparr>)"
  "(set_port p s)\<lparr>stop_status := vstopst13\<rparr> = set_port p (s\<lparr>stop_status := vstopst13\<rparr>)"
  "(set_port p s)\<lparr>OCIE1A := vocie1a14\<rparr> = set_port p (s\<lparr>OCIE1A := vocie1a14\<rparr>)"
  "(set_port p s)\<lparr>CS1 := vcs115\<rparr> = set_port p (s\<lparr>CS1 := vcs115\<rparr>)"
  "(set_port p s)\<lparr>OCR1A := vocr1a16\<rparr> = set_port p (s\<lparr>OCR1A := vocr1a16\<rparr>)"
  "(set_port p s)\<lparr>planner_queue := vplanne17\<rparr> = set_port p (s\<lparr>planner_queue := vplanne17\<rparr>)"
  "(set_port p s)\<lparr>laser_intensity := vlaseri18\<rparr> = set_port p (s\<lparr>laser_intensity := vlaseri18\<rparr>)"
  "(set_port p s)\<lparr>air_assist := vairass19\<rparr> = set_port p (s\<lparr>air_assist := vairass19\<rparr>)"
  "(set_port p s)\<lparr>aux1_assist := vaux1as20\<rparr> = set_port p (s\<lparr>aux1_assist := vaux1as20\<rparr>)"
  "(set_port p s)\<lparr>aux2_assist := vaux2as21\<rparr> = set_port p (s\<lparr>aux2_assist := vaux2as21\<rparr>)"
  "(set_port p s)\<lparr>serial_stopped := vserial22\<rparr> = set_port p (s\<lparr>serial_stopped := vserial22\<rparr>)"
  "(set_port p s)\<lparr>serial_consumed := vserial23\<rparr> = set_port p (s\<lparr>serial_consumed := vserial23\<rparr>)"
  "(set_port p s)\<lparr>raster := vraster24\<rparr> = set_port p (s\<lparr>raster := vraster24\<rparr>)"
  "(set_port p s)\<lparr>STEPPING_PORT := p'\<rparr> = set_port p' s"
  "set_port p (set_port p' s) = set_port p s"
  by (simp_all add: set_port_def)


lemma port_commute [simp]:
  "control_laser_intensity v (set_port p s) = set_port p (control_laser_intensity v s)"
  "planner_discard_current_block (set_port p s) = set_port p (planner_discard_current_block s)"
  "planner_reset_block_buffer (set_port p s) = set_port p (planner_reset_block_buffer s)"
  "serial_consume_data (set_port p s) = set_port p (serial_consume_data s)"
  "stepper_stop_processing (set_port p s) = set_port p (stepper_stop_processing s)"
  "stepper_request_stop k (set_port p s) = set_port p (stepper_request_stop k s)"
  "discard_block (set_port p s) = set_port p (discard_block s)"
  "planner_get_current_block (set_port p s) = planner_get_current_block s"
  by (simp_all add: control_laser_intensity_def planner_discard_current_block_def
      planner_reset_block_buffer_def serial_consume_data_def stepper_stop_processing_def
      stepper_request_stop_def serial_stop_def discard_block_def planner_get_current_block_def)

lemma adjust_speed_port [simp]:
  "adjust_speed cfg r (set_port p s) = set_port p (adjust_speed cfg r s)"
  by (simp add: adjust_speed_def config_step_timer_def split: prod.splits)

lemma set_beam_port [simp]:
  "set_beam cfg b r (set_port p s) = set_port p (set_beam cfg b r s)"
  by (simp add: set_beam_def adjust_beam_dynamics_def)

lemma acceleration_tick_port [simp]:
  "acceleration_tick cfg (set_port p s)
     = (fst (acceleration_tick cfg s), set_port p (snd (acceleration_tick cfg s)))"
  by (simp add: acceleration_tick_def Let_def)

lemma accelerating_port [simp]:
  "accelerating cfg b (set_port p s) = set_port p (accelerating cfg b s)"
  by (simp add: accelerating_def Let_def case_prod_beta)

lemma decelerating_port [simp]:
  "decelerating cfg b (set_port p s) = set_port p (decelerating cfg b s)"
  by (simp add: decelerating_def Let_def case_prod_beta)

lemma cruising_port [simp]:
  "cruising cfg b (set_port p s) = set_port p (cruising cfg b s)"
  by (simp add: cruising_def Let_def serial_raster_read_def split: prod.splits)

lemma speed_adjustment_port [simp]:
  "speed_adjustment cfg b (set_port p s) = set_port p (speed_adjustment cfg b s)"
  by (simp add: speed_adjustment_def)

lemma trace_line_port [simp]:
  "trace_line cfg b (set_port p s) = set_port p (trace_line cfg b s)"
  by (simp add: trace_line_def split: prod.splits)

lemma start_block_port [simp]:
  "start_block cfg b (set_port p s) = set_port p (start_block cfg b s)"
  by (simp add: start_block_def Let_def adjust_beam_dynamics_def)

lemma process_block_port [simp]:
  "process_block cfg b (set_port p s) = set_port p (process_block cfg b s)"
  by (cases "btype b") (simp_all add: process_block_def Let_def)

lemma pulse_steppers_port:
  "pulse_steppers cfg s =
     set_port ((((STEPPING_PORT s AND NOT (DIRECTION_MASK cfg))
                  OR (out_bits s AND DIRECTION_MASK cfg)) AND NOT (STEPPING_MASK cfg))
               OR out_bits s) s"
  by (simp add: pulse_steppers_def Let_def set_port_def)

lemma isr_port:
  "set_port x (TIMER1_COMPA_vect cfg inp (set_port p s))
     = set_port x (TIMER1_COMPA_vect cfg inp s)"
  by (cases "limit_stop cfg inp"; cases "current_block s"; cases "planner_queue s";
      auto simp add: TIMER1_COMPA_vect_def Let_def pulse_steppers_port planner_get_current_block_def)

lemma set_port_same [simp]: "set_port (STEPPING_PORT s) s = s"
  by (simp add: set_port_def)

lemma timer2_port:
  "TIMER2_OVF_vect cfg s =
     set_port ((STEPPING_PORT s AND NOT (STEPPING_MASK cfg))
               OR (INVERT_MASK cfg AND STEPPING_MASK cfg)) s"
  by (simp add: TIMER2_OVF_vect_def set_port_def)

text \<open>
  An invocation that is not turned back (by the busy flag, a stop request or a limit)
  writes the pending pattern to the port.
\<close>

lemma isr_port_written:
  assumes "\<not> busy s" and "\<not> stop_requested s" and "limit_stop cfg inp = None"
  shows "STEPPING_PORT (TIMER1_COMPA_vect cfg inp s) =
     (((STEPPING_PORT s AND NOT (DIRECTION_MASK cfg))
         OR (out_bits s AND DIRECTION_MASK cfg)) AND NOT (STEPPING_MASK cfg))
     OR out_bits s"
  using assms
  by (cases "current_block s"; cases "planner_queue s";
      auto simp add: TIMER1_COMPA_vect_def Let_def pulse_steppers_port
        planner_get_current_block_def control_laser_intensity_def)

lemma isr_port_pulse:
  assumes "pins_ok cfg"
    and "\<not> busy s" and "\<not> stop_requested s" and "limit_stop cfg inp = None"
  shows "port_pulse cfg a (TIMER1_COMPA_vect cfg inp s) \<longleftrightarrow> step_pattern cfg a s"
proof -
  note m = stepping_mask_bit [OF assms(1), of a]
  have r: "\<not> pin_active cfg a (TIMER2_OVF_vect cfg t)" for t
    using m
    by (simp add: pin_active_def TIMER2_OVF_vect_def bit_xor_iff bit_or_iff bit_and_iff
        bit_not_iff)
  have "pin_active cfg a (TIMER1_COMPA_vect cfg inp s) \<longleftrightarrow> step_pattern cfg a s"
    using m
    by (simp add: pin_active_def step_pattern_def isr_port_written [OF assms(2-4)]
        bit_xor_iff bit_or_iff bit_and_iff bit_not_iff)
  then show ?thesis by (simp add: port_pulse_def r)
qed

lemma isr_running:
  assumes "\<not> busy s" and "\<not> stop_requested s" and "limit_stop cfg inp = None"
  shows "\<not> busy (TIMER1_COMPA_vect cfg inp s)"
    and "\<not> stop_requested (TIMER1_COMPA_vect cfg inp s)"
  using assms
  by (cases "current_block s"; cases "planner_queue s";
      auto simp add: TIMER1_COMPA_vect_def Let_def planner_get_current_block_def
        control_laser_intensity_def pulse_steppers_def)+

lemma butlast_trace:
  "butlast (s # isr_trace cfg (inp # inps) s)
     = s # butlast (TIMER1_COMPA_vect cfg inp s
                     # isr_trace cfg inps (TIMER1_COMPA_vect cfg inp s))"
  by simp

text \<open>
  The pulses the port has in a step cycle are the steps of the pattern that was pending
  when the cycle began: those of the state before the first cycle, then those the step
  events leave, each one invocation after it was computed.
\<close>

lemma step_cycles_pulses:
  assumes cfg: "pins_ok cfg"
  shows "\<not> busy s \<Longrightarrow> \<not> stop_requested s \<Longrightarrow>
     \<forall>inp \<in> set inps. limit_stop cfg inp = None \<Longrightarrow>
       map (port_pulse cfg a) (step_cycles cfg inps (set_port p s))
         = map (step_pattern cfg a) (butlast (s # isr_trace cfg inps s))"
proof (induction inps arbitrary: s p)
  case Nil
  show ?case by simp
next
  case (Cons inp inps)
  let ?t = "TIMER1_COMPA_vect cfg inp s" and ?t' = "TIMER1_COMPA_vect cfg inp (set_port p s)"
  have ls: "limit_stop cfg inp = None" and ls': "\<forall>i \<in> set inps. limit_stop cfg i = None"
    using Cons.prems(3) by simp_all
  note r = isr_running [OF Cons.prems(1,2) ls]
  have b: "\<not> busy (set_port p s)" "\<not> stop_requested (set_port p s)"
    using Cons.prems(1,2) by simp_all
  have h: "port_pulse cfg a ?t' \<longleftrightarrow> step_pattern cfg a s"
    using isr_port_pulse [OF cfg b ls, of a] by (simp add: step_pattern_def)
  obtain q where q: "TIMER2_OVF_vect cfg ?t' = set_port q ?t'"
    using timer2_port [of cfg ?t'] by blast
  have "set_port q ?t' = set_port q ?t" by (rule isr_port)
  then have n: "TIMER2_OVF_vect cfg ?t' = set_port q ?t" using q by simp
  have "map (port_pulse cfg a) (step_cycles cfg (inp # inps) (set_port p s))
      = port_pulse cfg a ?t' # map (port_pulse cfg a) (step_cycles cfg inps (set_port q ?t))"
    by (simp add: n)
  also have "\<dots> = step_pattern cfg a s
      # map (step_pattern cfg a) (butlast (?t # isr_trace cfg inps ?t))"
    using h Cons.IH [OF r ls', of q] by simp
  also have "\<dots> = map (step_pattern cfg a) (butlast (s # isr_trace cfg (inp # inps) s))"
    by (simp only: butlast_trace list.map)
  finally show ?case .
qed

lemma run_cycles_port:
  "set_port x (run_cycles cfg inps (set_port p s)) = set_port x (run_isr cfg inps s)"
proof (induction inps arbitrary: s p)
  case Nil
  show ?case by simp
next
  case (Cons inp inps)
  let ?t = "TIMER1_COMPA_vect cfg inp s" and ?t' = "TIMER1_COMPA_vect cfg inp (set_port p s)"
  obtain q where q: "TIMER2_OVF_vect cfg ?t' = set_port q ?t'"
    using timer2_port [of cfg ?t'] by blast
  have "set_port q ?t' = set_port q ?t" by (rule isr_port)
  then have n: "TIMER2_OVF_vect cfg ?t' = set_port q ?t" using q by simp
  show ?case using Cons.IH [of q ?t] by (simp add: n)
qed

lemma run_cycles_state:
  "set_port x (run_cycles cfg inps s) = set_port x (run_isr cfg inps s)"
  using run_cycles_port [of x cfg inps "STEPPING_PORT s" s] by simp

lemma last_trace:
  "last (s # isr_trace cfg inps s) = run_isr cfg inps s"
  by (induction inps arbitrary: s) simp_all

lemma count_shift:
  "length (filter P (butlast (x # xs))) + (if P (last (x # xs)) then 1 else 0)
     = (if P x then 1 else (0::nat)) + length (filter P xs)"
proof -
  obtain zs z where e: "x # xs = zs @ [z]"
    by (metis append_butlast_last_id list.distinct(1))
  have "length (filter P (zs @ [z])) = length (filter P (x # xs))" using e by simp
  then have "length (filter P zs) + (if P z then 1 else 0)
      = (if P x then 1 else 0) + length (filter P xs)" by (auto split: if_splits)
  then show ?thesis unfolding e by simp
qed

text \<open>
  Over step cycles that are not turned back, the pulses emitted and the step still
  pending add up to the step pending at the start and the steps the events computed.
\<close>

lemma pulses_emitted_patterns:
  assumes cfg: "pins_ok cfg" and s: "\<not> busy s" "\<not> stop_requested s"
    and ls: "\<forall>inp \<in> set inps. limit_stop cfg inp = None"
  shows "pulses_emitted cfg a inps s
           + (if step_pattern cfg a (run_isr cfg inps s) then 1 else 0)
         = (if step_pattern cfg a s then 1 else 0)
           + pattern_count cfg a (isr_trace cfg inps s)"
proof -
  have "map (port_pulse cfg a) (step_cycles cfg inps s)
      = map (step_pattern cfg a) (butlast (s # isr_trace cfg inps s))"
    using step_cycles_pulses [OF cfg s ls, of a "STEPPING_PORT s"] by simp
  then have "length (filter id (map (port_pulse cfg a) (step_cycles cfg inps s)))
      = length (filter id (map (step_pattern cfg a) (butlast (s # isr_trace cfg inps s))))"
    by simp
  then have "pulses_emitted cfg a inps s
      = length (filter (step_pattern cfg a) (butlast (s # isr_trace cfg inps s)))"
    by (simp add: pulses_emitted_def filter_map o_def)
  then show ?thesis
    using count_shift [of "step_pattern cfg a" s "isr_trace cfg inps s"]
    by (simp only: last_trace pattern_count_def)
qed

lemma run_cycles_fields:
  "step_events_completed (run_cycles cfg inps s) = step_events_completed (run_isr cfg inps s)"
  "current_block (run_cycles cfg inps s) = current_block (run_isr cfg inps s)"
  "planner_queue (run_cycles cfg inps s) = planner_queue (run_isr cfg inps s)"
  "stepper_position (run_cycles cfg inps s) = stepper_position (run_isr cfg inps s)"
  "out_bits (run_cycles cfg inps s) = out_bits (run_isr cfg inps s)"
  "busy (run_cycles cfg inps s) = busy (run_isr cfg inps s)"
  "stop_requested (run_cycles cfg inps s) = stop_requested (run_isr cfg inps s)"
proof -
  have e: "set_port 0 (run_cycles cfg inps s) = set_port 0 (run_isr cfg inps s)"
    by (rule run_cycles_state)
  show "step_events_completed (run_cycles cfg inps s)
      = step_events_completed (run_isr cfg inps s)"
    using arg_cong [OF e, of step_events_completed] by simp
  show "current_block (run_cycles cfg inps s) = current_block (run_isr cfg inps s)"
    using arg_cong [OF e, of current_block] by simp
  show "planner_queue (run_cycles cfg inps s) = planner_queue (run_isr cfg inps s)"
    using arg_cong [OF e, of planner_queue] by simp
  show "stepper_position (run_cycles cfg inps s) = stepper_position (run_isr cfg inps s)"
    using arg_cong [OF e, of stepper_position] by simp
  show "out_bits (run_cycles cfg inps s) = out_bits (run_isr cfg inps s)"
    using arg_cong [OF e, of out_bits] by simp
  show "busy (run_cycles cfg inps s) = busy (run_isr cfg inps s)"
    using arg_cong [OF e, of busy] by simp
  show "stop_requested (run_cycles cfg inps s) = stop_requested (run_isr cfg inps s)"
    using arg_cong [OF e, of stop_requested] by simp
qed

lemma run_cycles_pattern:
  "step_pattern cfg a (run_cycles cfg inps s) = step_pattern cfg a (run_isr cfg inps s)"
  by (simp add: step_pattern_def run_cycles_fields)

lemma step_cycles_append:
  "step_cycles cfg (xs @ ys) s = step_cycles cfg xs s @ step_cycles cfg ys (run_cycles cfg xs s)"
  by (induction xs arbitrary: s) simp_all

lemma run_isr_running:
  "\<not> busy s \<Longrightarrow> \<not> stop_requested s \<Longrightarrow> \<forall>inp \<in> set inps. limit_stop cfg inp = None \<Longrightarrow>
     \<not> busy (run_isr cfg inps s) \<and> \<not> stop_requested (run_isr cfg inps s)"
proof (induction inps arbitrary: s)
  case Nil
  then show ?case by simp
next
  case (Cons inp inps)
  have ls: "limit_stop cfg inp = None" and ls': "\<forall>i \<in> set inps. limit_stop cfg i = None"
    using Cons.prems(3) by simp_all
  note r = isr_running [OF Cons.prems(1,2) ls]
  show ?case using Cons.IH [OF r ls'] by simp
qed

text \<open>One more step cycle emits the pending step.\<close>

lemma pulses_emitted_snoc:
  assumes cfg: "pins_ok cfg" and s: "\<not> busy s" "\<not> stop_requested s"
    and ls: "\<forall>inp \<in> set inps. limit_stop cfg inp = None" and ls': "limit_stop cfg inp' = None"
  shows "pulses_emitted cfg a (inps @ [inp']) s
     = pulses_emitted cfg a inps s
       + (if step_pattern cfg a (run_isr cfg inps s) then 1 else 0)"
proof -
  let ?t = "run_cycles cfg inps s"
  from run_isr_running [OF s ls]
  have r: "\<not> busy ?t" "\<not> stop_requested ?t" by (simp_all add: run_cycles_fields)
  have "port_pulse cfg a (TIMER1_COMPA_vect cfg inp' ?t) \<longleftrightarrow> step_pattern cfg a ?t"
    by (rule isr_port_pulse [OF cfg r ls'])
  then show ?thesis
    by (simp add: pulses_emitted_def step_cycles_append run_cycles_pattern)
qed

lemma isr_interrupt_enabled:
  assumes "executing b q s" and "limit_stop cfg inp = None"
  shows "OCIE1A (TIMER1_COMPA_vect cfg inp s) = OCIE1A s"
  by (simp add: isr_executing [OF assms] event_entry_def Let_def pulse_steppers_def
      control_laser_intensity_def)

text \<open>While a line is executed the step interrupt stays enabled.\<close>

lemma run_interrupt_enabled:
  assumes mb: "motion_block b"
  shows "executing b q s \<Longrightarrow> entry_events s = of_nat k \<Longrightarrow>
     k + length inps \<le> unat (step_event_count b) \<Longrightarrow>
     \<forall>inp \<in> set inps. limit_stop cfg inp = None \<Longrightarrow>
       OCIE1A (run_isr cfg inps s) = OCIE1A s"
proof (induction inps arbitrary: s k)
  case Nil
  show ?case by simp
next
  case (Cons inp rest)
  let ?s1 = "TIMER1_COMPA_vect cfg inp s"
  have ls: "limit_stop cfg inp = None" and ls': "\<forall>i \<in> set rest. limit_stop cfg i = None"
    using Cons.prems(4) by simp_all
  have o: "OCIE1A ?s1 = OCIE1A s" by (rule isr_interrupt_enabled [OF Cons.prems(1) ls])
  show ?case
  proof (cases "rest = []")
    case True
    then show ?thesis using o by simp
  next
    case False
    then have "0 < length rest" by simp
    then have l1: "k + length [inp] < unat (step_event_count b)"
      using Cons.prems(3) by (simp del: length_greater_0_conv)
    have l1': "\<forall>i \<in> set [inp]. limit_stop cfg i = None" using ls by simp
    from run_events [OF mb Cons.prems(1,2) l1 l1']
    have ex1: "executing b q ?s1" and ee1: "entry_events ?s1 = of_nat (Suc k)"
      by simp_all
    have len: "Suc k + length rest \<le> unat (step_event_count b)"
      using Cons.prems(3) by simp
    show ?thesis using Cons.IH [OF ex1 ee1 len ls'] o by simp
  qed
qed

lemma run_cycles_interrupt:
  "OCIE1A (run_cycles cfg inps s) = OCIE1A (run_isr cfg inps s)"
  by (metis run_cycles_state set_port_fields(15))

subsection \<open>The patterns of a line\<close>

text \<open>
  A line or raster line with \<open>1 \<le> step_event_count < 2 ^ 31\<close> and
  \<open>steps_a \<le> step_event_count\<close> on every axis, taken from the head of the planner queue
  and run with no limit stop: after each invocation the count of completed step events
  is the number of invocations, and the block is released exactly when that count equals
  \<open>step_event_count\<close>; by then the block has left the planner queue, the step events
  have computed exactly \<open>steps_a\<close> patterns with a step of axis \<open>a\<close>, and the position
  has moved by \<open>steps_a\<close>, down when the direction bit of the axis is set and up otherwise.
\<close>

lemma line_run_patterns:
  assumes cfg: "pins_ok cfg" and mb: "motion_block b" and dir: "direction_only cfg b"
    and n0: "0 < step_event_count b" and n: "step_event_count b < 2 ^ 31"
    and st: "\<forall>a. steps_of a b \<le> step_event_count b"
    and s: "\<not> busy s" "\<not> stop_requested s" "current_block s = None"
      "planner_queue s = b # q"
    and ne: "inps \<noteq> []" and len: "length inps \<le> unat (step_event_count b)"
    and ls: "\<forall>inp \<in> set inps. limit_stop cfg inp = None"
  shows "step_events_completed (run_isr cfg inps s) = of_nat (length inps)
    \<and> (current_block (run_isr cfg inps s) = None
         \<longleftrightarrow> step_events_completed (run_isr cfg inps s) = step_event_count b)
    \<and> (current_block (run_isr cfg inps s) \<noteq> None
         \<longrightarrow> current_block (run_isr cfg inps s) = Some b)
    \<and> (step_events_completed (run_isr cfg inps s) = step_event_count b \<longrightarrow>
          planner_queue (run_isr cfg inps s) = q
          \<and> (\<forall>a. pattern_count cfg a (isr_trace cfg inps s) = unat (steps_of a b)
                \<and> stepper_position (run_isr cfg inps s) a
                    = (if bit (direction_bits b) (DIRECTION_BIT cfg a)
                       then stepper_position s a - steps_of a b
                       else stepper_position s a + steps_of a b)))"
proof -
  let ?n = "step_event_count b" and ?sf = "run_isr cfg inps s"
  have n': "uint ?n < 2 ^ 31" using n by (simp add: word_less_def)
  have st': "steps_of a b \<le> ?n" for a using st by simp
  have ex: "executing b q s" using s by (simp add: executing_def)
  note f = fetch_entry [OF n0 s(3)]
  have c: "\<forall>a. - uint ?n < sint (entry_counter b a s) \<and> sint (entry_counter b a s) \<le> 0"
    using f(2) by blast
  have le: "0 + length inps \<le> unat ?n" using len by simp
  note r = run_block [OF cfg mb dir n' st' ex f(1) c ne le ls]
  have ev: "step_events_completed ?sf = of_nat (length inps)"
    using r [of X_AXIS] by simp
  have blk: "current_block ?sf = (if length inps < unat ?n then Some b else None)"
    and que: "planner_queue ?sf = (if length inps < unat ?n then b # q else q)"
    using r [of X_AXIS] by simp_all
  have "unat (of_nat (length inps) :: u32) = length inps"
    using len by (rule le_unat_uoi)
  then have fin: "step_events_completed ?sf = ?n \<longleftrightarrow> length inps = unat ?n"
    unfolding ev by auto
  have total: "pattern_count cfg a (isr_trace cfg inps s) = unat (steps_of a b)
      \<and> stepper_position ?sf a
          = (if bit (direction_bits b) (DIRECTION_BIT cfg a)
             then stepper_position s a - steps_of a b
             else stepper_position s a + steps_of a b)"
    if full: "length inps = unat ?n" for a
  proof -
    let ?p = "pattern_count cfg a (isr_trace cfg inps s)"
    have e0: "sint (entry_counter b a s) = - (uint ?n div 2)"
      using s(3) sint_neg_half [of ?n] by (simp add: entry_counter_def)
    have l: "int (length inps) = uint ?n" using full by simp
    from r [of a] have "sint (counter_of a ?sf)
        = - (uint ?n div 2) + uint ?n * uint (steps_of a b) - int ?p * uint ?n"
      and "- uint ?n < sint (counter_of a ?sf)" and "sint (counter_of a ?sf) \<le> 0"
      unfolding e0 l by simp_all
    then have "- uint ?n < - (uint ?n div 2) + uint ?n * uint (steps_of a b) - int ?p * uint ?n"
      and "- (uint ?n div 2) + uint ?n * uint (steps_of a b) - int ?p * uint ?n \<le> 0"
      by simp_all
    moreover have "0 < uint ?n" using n0 by (simp add: word_less_def)
    ultimately have "int ?p = uint (steps_of a b)"
      by (intro bresenham_total)
    then have "nat (int ?p) = nat (uint (steps_of a b))" by (rule arg_cong)
    also have "nat (uint (steps_of a b)) = unat (steps_of a b)"
      by (rule unat_eq_nat_uint [symmetric])
    finally have p: "?p = unat (steps_of a b)" by (simp only: nat_int)
    from r [of a] have "stepper_position ?sf a
          = (if bit (direction_bits b) (DIRECTION_BIT cfg a)
             then stepper_position s a - of_nat ?p else stepper_position s a + of_nat ?p)"
      by simp
    then show ?thesis unfolding p by simp
  qed
  have c2: "current_block ?sf = None \<longleftrightarrow> step_events_completed ?sf = ?n"
    unfolding fin blk using len by simp
  have c3: "current_block ?sf \<noteq> None \<longrightarrow> current_block ?sf = Some b"
    unfolding blk by simp
  have c4: "step_events_completed ?sf = ?n \<longrightarrow>
          planner_queue ?sf = q
          \<and> (\<forall>a. pattern_count cfg a (isr_trace cfg inps s) = unat (steps_of a b)
                \<and> stepper_position ?sf a
                    = (if bit (direction_bits b) (DIRECTION_BIT cfg a)
                       then stepper_position s a - steps_of a b
                       else stepper_position s a + steps_of a b))"
  proof
    assume "step_events_completed ?sf = ?n"
    then have full: "length inps = unat ?n" using fin by simp
    then have "planner_queue ?sf = q" unfolding que by simp
    then show "planner_queue ?sf = q
          \<and> (\<forall>a. pattern_count cfg a (isr_trace cfg inps s) = unat (steps_of a b)
                \<and> stepper_position ?sf a
                    = (if bit (direction_bits b) (DIRECTION_BIT cfg a)
                       then stepper_position s a - steps_of a b
                       else stepper_position s a + steps_of a b))"
      using total [OF full] by blast
  qed
  from ev c2 c3 c4 show ?thesis by (intro conjI)
qed

text \<open>
  A line with \<open>steps_x = 3\<close>, \<open>steps_y = 4\<close>, \<open>steps_z = 0\<close> and
  \<open>step_event_count = 4\<close>, its counters starting from \<open>-(step_event_count / 2) = -2\<close>:
  the patterns its four step events leave in \<open>out_bits\<close> have 3 steps of X and 4 of Y
  and none of Z, and the steps of X are those of the step events 1, 3 and 4 (on the second
  event the counter of X is \<open>-3 + 3 = 0\<close>, which is not positive).
\<close>

lemma diagonal_3_4_patterns:
  assumes cfg: "pins_ok cfg" and mb: "motion_block b" and dir: "direction_only cfg b"
    and b: "steps_x b = 3" "steps_y b = 4" "steps_z b = 0" "step_event_count b = 4"
    and s: "\<not> busy s" "\<not> stop_requested s" "current_block s = None"
      "planner_queue s = b # q"
    and ls: "limit_stop cfg i1 = None" "limit_stop cfg i2 = None"
      "limit_stop cfg i3 = None" "limit_stop cfg i4 = None"
  shows "map (step_pattern cfg X_AXIS) (isr_trace cfg [i1, i2, i3, i4] s)
           = [True, False, True, True]
    \<and> map (step_pattern cfg Y_AXIS) (isr_trace cfg [i1, i2, i3, i4] s)
           = [True, True, True, True]
    \<and> map (step_pattern cfg Z_AXIS) (isr_trace cfg [i1, i2, i3, i4] s)
           = [False, False, False, False]
    \<and> pattern_count cfg X_AXIS (isr_trace cfg [i1, i2, i3, i4] s) = 3
    \<and> pattern_count cfg Y_AXIS (isr_trace cfg [i1, i2, i3, i4] s) = 4"
proof -
  define s1 where "s1 = TIMER1_COMPA_vect cfg i1 s"
  define s2 where "s2 = TIMER1_COMPA_vect cfg i2 s1"
  define s3 where "s3 = TIMER1_COMPA_vect cfg i3 s2"
  define s4 where "s4 = TIMER1_COMPA_vect cfg i4 s3"
  have tr: "isr_trace cfg [i1, i2, i3, i4] s = [s1, s2, s3, s4]"
    by (simp add: s1_def s2_def s3_def s4_def)
  have ex0: "executing b q s" using s by (simp add: executing_def)
  have c0: "entry_counter b X_AXIS s = - 2" "entry_counter b Y_AXIS s = - 2"
    "entry_counter b Z_AXIS s = - 2" "entry_events s = 0"
    using s(3) b(4) by (simp_all add: entry_counter_def entry_events_def)
  note r1 = isr_step [OF ex0 mb ls(1), folded s1_def]
    and p1 = isr_step_pattern [OF cfg mb dir ex0 ls(1), folded s1_def]
  have ex1: "executing b q s1"
    using r1(3-6) c0 b by (simp add: executing_def)
  have c1: "entry_counter b X_AXIS s1 = - 3" "entry_counter b Y_AXIS s1 = - 2"
    "entry_counter b Z_AXIS s1 = - 2" "entry_events s1 = 1"
    using r1(1) [of X_AXIS] r1(1) [of Y_AXIS] r1(1) [of Z_AXIS] r1(2,3) c0 b
    by (simp_all add: entry_counter_def entry_events_def word_sless_alt)
  note r2 = isr_step [OF ex1 mb ls(2), folded s2_def]
    and p2 = isr_step_pattern [OF cfg mb dir ex1 ls(2), folded s2_def]
  have ex2: "executing b q s2"
    using r2(3-6) c1 b by (simp add: executing_def)
  have c2: "entry_counter b X_AXIS s2 = 0" "entry_counter b Y_AXIS s2 = - 2"
    "entry_counter b Z_AXIS s2 = - 2" "entry_events s2 = 2"
    using r2(1) [of X_AXIS] r2(1) [of Y_AXIS] r2(1) [of Z_AXIS] r2(2,3) c1 b
    by (simp_all add: entry_counter_def entry_events_def word_sless_alt)
  note r3 = isr_step [OF ex2 mb ls(3), folded s3_def]
    and p3 = isr_step_pattern [OF cfg mb dir ex2 ls(3), folded s3_def]
  have ex3: "executing b q s3"
    using r3(3-6) c2 b by (simp add: executing_def)
  have c3: "entry_counter b X_AXIS s3 = - 1" "entry_counter b Y_AXIS s3 = - 2"
    "entry_counter b Z_AXIS s3 = - 2" "entry_events s3 = 3"
    using r3(1) [of X_AXIS] r3(1) [of Y_AXIS] r3(1) [of Z_AXIS] r3(2,3) c2 b
    by (simp_all add: entry_counter_def entry_events_def word_sless_alt)
  note p4 = isr_step_pattern [OF cfg mb dir ex3 ls(4), folded s4_def]
  have x: "map (step_pattern cfg X_AXIS) [s1, s2, s3, s4] = [True, False, True, True]"
    using p1 [of X_AXIS] p2 [of X_AXIS] p3 [of X_AXIS] p4 [of X_AXIS] c0 c1 c2 c3 b
    by (simp add: word_sless_alt)
  have y: "map (step_pattern cfg Y_AXIS) [s1, s2, s3, s4] = [True, True, True, True]"
    using p1 [of Y_AXIS] p2 [of Y_AXIS] p3 [of Y_AXIS] p4 [of Y_AXIS] c0 c1 c2 c3 b
    by (simp add: word_sless_alt)
  have z: "map (step_pattern cfg Z_AXIS) [s1, s2, s3, s4] = [False, False, False, False]"
    using p1 [of Z_AXIS] p2 [of Z_AXIS] p3 [of Z_AXIS] p4 [of Z_AXIS] c0 c1 c2 c3 b
    by (simp add: word_sless_alt)
  have cnt: "pattern_count cfg a ss = length (filter id (map (step_pattern cfg a) ss))" for a ss
    by (simp add: pattern_count_def filter_map comp_def)
  show ?thesis
    unfolding tr cnt x y z by simp
qed

subsection \<open>The claims\<close>

text \<open>
  C1, as amended. A line or raster line with \<open>1 \<le> step_event_count < 2 ^ 31\<close> and
  \<open>steps_a \<le> step_event_count\<close> on every axis, taken from the head of the planner queue
  and run in step cycles with no limit stop: after each invocation the count of completed
  step events is the number of invocations, the step interrupt stays enabled, and the
  block is released exactly when that count equals \<open>step_event_count\<close>. At that moment
  the block has left the planner queue and the position of every axis has moved by
  \<open>steps_a\<close>, down when the direction bit of the axis is set and up otherwise. The
  stepping port is one invocation behind: an invocation writes the pattern that the
  invocation before it has computed. So at that moment the pulses emitted on axis \<open>a\<close>,
  together with the step still pending in \<open>out_bits\<close>, are the \<open>steps_a\<close> steps of the
  block and the step that was pending when the block began, if there was one; the next
  invocation of the step interrupt emits the pending step, and with it the pulses of the
  block are complete.
\<close>

theorem line_completes_with_exact_steps:
  assumes cfg: "pins_ok cfg" and mb: "motion_block b" and dir: "direction_only cfg b"
    and n0: "0 < step_event_count b" and n: "step_event_count b < 2 ^ 31"
    and st: "\<forall>a. steps_of a b \<le> step_event_count b"
    and s: "\<not> busy s" "\<not> stop_requested s" "current_block s = None"
      "planner_queue s = b # q"
    and ne: "inps \<noteq> []" and len: "length inps \<le> unat (step_event_count b)"
    and ls: "\<forall>inp \<in> set inps. limit_stop cfg inp = None"
    and ls': "limit_stop cfg inp' = None"
  shows "step_events_completed (run_cycles cfg inps s) = of_nat (length inps)
    \<and> OCIE1A (run_cycles cfg inps s) = OCIE1A s
    \<and> (current_block (run_cycles cfg inps s) = None
         \<longleftrightarrow> step_events_completed (run_cycles cfg inps s) = step_event_count b)
    \<and> (current_block (run_cycles cfg inps s) \<noteq> None
         \<longrightarrow> current_block (run_cycles cfg inps s) = Some b)
    \<and> (step_events_completed (run_cycles cfg inps s) = step_event_count b \<longrightarrow>
          planner_queue (run_cycles cfg inps s) = q
          \<and> (\<forall>a. stepper_position (run_cycles cfg inps s) a
                    = (if bit (direction_bits b) (DIRECTION_BIT cfg a)
                       then stepper_position s a - steps_of a b
                       else stepper_position s a + steps_of a b)
                \<and> pulses_emitted cfg a inps s
                     + (if step_pattern cfg a (run_cycles cfg inps s) then 1 else 0)
                    = (if step_pattern cfg a s then 1 else 0) + unat (steps_of a b)
                \<and> pulses_emitted cfg a (inps @ [inp']) s
                    = (if step_pattern cfg a s then 1 else 0) + unat (steps_of a b)))"
proof -
  note t = line_run_patterns [OF cfg mb dir n0 n st s ne len ls]
  have ex: "executing b q s" using s by (simp add: executing_def)
  have e0: "entry_events s = of_nat 0" using s(3) by (simp add: entry_events_def)
  have le: "0 + length inps \<le> unat (step_event_count b)" using len by simp
  note o = run_interrupt_enabled [OF mb ex e0 le ls]
  note e = pulses_emitted_patterns [OF cfg s(1,2) ls]
  note e' = pulses_emitted_snoc [OF cfg s(1,2) ls ls']
  show ?thesis
    unfolding run_cycles_fields run_cycles_interrupt run_cycles_pattern e'
    using t e o by auto
qed


theorem line_completes_with_exact_steps_witness:
  "step_events_completed
     (run_cycles example_config (replicate 4 no_signal) (armed [line_block 3 4 0 4] raster_bytes))
     = step_event_count (line_block 3 4 0 4)
   \<and> current_block
       (run_cycles example_config (replicate 4 no_signal) (armed [line_block 3 4 0 4] raster_bytes))
       = None
   \<and> OCIE1A
       (run_cycles example_config (replicate 4 no_signal) (armed [line_block 3 4 0 4] raster_bytes))
   \<and> planner_queue
       (run_cycles example_config (replicate 4 no_signal) (armed [line_block 3 4 0 4] raster_bytes))
       = []
   \<and> stepper_position
       (run_cycles example_config (replicate 4 no_signal) (armed [line_block 3 4 0 4] raster_bytes))
       X_AXIS = 3
   \<and> stepper_position
       (run_cycles example_config (replicate 4 no_signal) (armed [line_block 3 4 0 4] raster_bytes))
       Y_AXIS = 4
   \<and> pulses_emitted example_config X_AXIS (replicate 4 no_signal)
       (armed [line_block 3 4 0 4] raster_bytes) = 2
   \<and> pulses_emitted example_config Y_AXIS (replicate 4 no_signal)
       (armed [line_block 3 4 0 4] raster_bytes) = 3
   \<and> pulses_emitted example_config X_AXIS (replicate 4 no_signal @ [no_signal])
       (armed [line_block 3 4 0 4] raster_bytes) = 3
   \<and> pulses_emitted example_config Y_AXIS (replicate 4 no_signal @ [no_signal])
       (armed [line_block 3 4 0 4] raster_bytes) = 4"
proof -
  let ?b = "line_block 3 4 0 4" and ?inps = "replicate 4 no_signal"
  let ?s = "armed [line_block 3 4 0 4] raster_bytes"
  let ?sf = "run_cycles example_config ?inps ?s"
  have h1: "pins_ok example_config" by (simp add: pins_ok_def example_config_def)
  have h2: "motion_block ?b" by (simp add: motion_block_def line_block_def)
  have h3: "direction_only example_config ?b"
    by (simp add: direction_only_def line_block_def)
  have h4: "0 < step_event_count ?b" "step_event_count ?b < 2 ^ 31"
    by (simp_all add: line_block_def)
  have h5: "\<forall>a. steps_of a ?b \<le> step_event_count ?b"
  proof
    fix a show "steps_of a ?b \<le> step_event_count ?b"
      by (cases a) (simp_all add: line_block_def)
  qed
  have h6: "\<not> busy ?s" "\<not> stop_requested ?s" "current_block ?s = None"
    "planner_queue ?s = ?b # []"
    by (simp_all add: armed_def)
  have h7: "?inps \<noteq> []" "length ?inps \<le> unat (step_event_count ?b)"
    by (simp_all add: line_block_def)
  have h8: "\<forall>inp \<in> set ?inps. limit_stop example_config inp = None"
    "limit_stop example_config no_signal = None"
    by (simp_all add: limit_stop_def limit_hit_def no_signal_def)
  note t = line_completes_with_exact_steps [OF h1 h2 h3 h4 h5 h6 h7 h8]
  have n: "step_event_count ?b = of_nat (length ?inps)" by (simp add: line_block_def)
  from t have e: "step_events_completed ?sf = step_event_count ?b"
    unfolding n by blast
  from t have oc: "OCIE1A ?sf = OCIE1A ?s" by blast
  then have oc': "OCIE1A ?sf" by (simp add: armed_def)
  from e t have cb: "current_block ?sf = None" and q: "planner_queue ?sf = []"
    and a: "\<forall>a. stepper_position ?sf a
                  = (if bit (direction_bits ?b) (DIRECTION_BIT example_config a)
                     then stepper_position ?s a - steps_of a ?b
                     else stepper_position ?s a + steps_of a ?b)
              \<and> pulses_emitted example_config a ?inps ?s
                   + (if step_pattern example_config a ?sf then 1 else 0)
                  = (if step_pattern example_config a ?s then 1 else 0) + unat (steps_of a ?b)
              \<and> pulses_emitted example_config a (?inps @ [no_signal]) ?s
                  = (if step_pattern example_config a ?s then 1 else 0) + unat (steps_of a ?b)"
    by blast+
  have v: "steps_of X_AXIS ?b = 3" "steps_of Y_AXIS ?b = 4" "direction_bits ?b = 0"
    by (simp_all add: line_block_def)
  have p0: "stepper_position ?s X_AXIS = 0" "stepper_position ?s Y_AXIS = 0"
    "\<not> step_pattern example_config X_AXIS ?s" "\<not> step_pattern example_config Y_AXIS ?s"
    by (simp_all add: armed_def step_pattern_def example_config_def)
  have pf: "step_pattern example_config X_AXIS ?sf" "step_pattern example_config Y_AXIS ?sf"
    by code_simp+
  from a [THEN spec, of X_AXIS] a [THEN spec, of Y_AXIS]
  have "stepper_position ?sf X_AXIS = 3" and "stepper_position ?sf Y_AXIS = 4"
    and "pulses_emitted example_config X_AXIS ?inps ?s = 2"
    and "pulses_emitted example_config Y_AXIS ?inps ?s = 3"
    and "pulses_emitted example_config X_AXIS (?inps @ [no_signal]) ?s = 3"
    and "pulses_emitted example_config Y_AXIS (?inps @ [no_signal]) ?s = 4"
    unfolding v using p0 pf by simp_all
  with e cb oc' q show ?thesis by (intro conjI)
qed


text \<open>
  The claim as stated fails in two ways. The line 3:4 of four step events is complete
  after four invocations, by when 2 pulses have been emitted on X and 3 on Y: the pulses
  of its last step event are still to come. And a line with \<open>step_event_count = 0\<close> is
  released by its first invocation with \<open>step_events_completed = 1\<close>.
\<close>

theorem line_completion_counterexample:
  "current_block
     (run_cycles example_config (replicate 4 no_signal) (armed [line_block 3 4 0 4] raster_bytes))
     = None
   \<and> step_events_completed
       (run_cycles example_config (replicate 4 no_signal) (armed [line_block 3 4 0 4] raster_bytes))
       = step_event_count (line_block 3 4 0 4)
   \<and> pulses_emitted example_config X_AXIS (replicate 4 no_signal)
       (armed [line_block 3 4 0 4] raster_bytes) = 2
   \<and> steps_of X_AXIS (line_block 3 4 0 4) = 3
   \<and> pulses_emitted example_config Y_AXIS (replicate 4 no_signal)
       (armed [line_block 3 4 0 4] raster_bytes) = 3
   \<and> steps_of Y_AXIS (line_block 3 4 0 4) = 4
   \<and> steps_of X_AXIS (line_block 0 0 0 0) \<le> step_event_count (line_block 0 0 0 0)
   \<and> steps_of Y_AXIS (line_block 0 0 0 0) \<le> step_event_count (line_block 0 0 0 0)
   \<and> steps_of Z_AXIS (line_block 0 0 0 0) \<le> step_event_count (line_block 0 0 0 0)
   \<and> current_block
       (run_cycles example_config [no_signal] (armed [line_block 0 0 0 0] raster_bytes))
       = None
   \<and> planner_queue
       (run_cycles example_config [no_signal] (armed [line_block 0 0 0 0] raster_bytes))
       = []
   \<and> step_events_completed
       (run_cycles example_config [no_signal] (armed [line_block 0 0 0 0] raster_bytes))
       = 1
   \<and> step_events_completed
       (run_cycles example_config [no_signal] (armed [line_block 0 0 0 0] raster_bytes))
       \<noteq> step_event_count (line_block 0 0 0 0)"
  by code_simp

text \<open>
  What the port gets after that depends on what follows the line. An invocation that
  executes a command block leaves \<open>out_bits\<close> as it is, so the invocation after it writes
  the last pattern of the line a second time. Here an air-assist command follows the line
  3:4: after five invocations the step interrupt is still enabled, and the sixth emits a
  fourth pulse on X, with the position of X at 3.
\<close>

lemma stale_pattern_emitted_again:
  "OCIE1A (run_cycles example_config (replicate 5 no_signal)
     (armed [line_block 3 4 0 4, air_assist_on] raster_bytes))
   \<and> map (port_pulse example_config X_AXIS)
        (step_cycles example_config (replicate 6 no_signal)
           (armed [line_block 3 4 0 4, air_assist_on] raster_bytes))
      = [False, True, False, True, True, True]
   \<and> pulses_emitted example_config X_AXIS (replicate 6 no_signal)
        (armed [line_block 3 4 0 4, air_assist_on] raster_bytes) = 4
   \<and> stepper_position (run_cycles example_config (replicate 6 no_signal)
        (armed [line_block 3 4 0 4, air_assist_on] raster_bytes)) X_AXIS = 3
   \<and> \<not> OCIE1A (run_cycles example_config (replicate 6 no_signal)
        (armed [line_block 3 4 0 4, air_assist_on] raster_bytes))"
  by code_simp

text \<open>
  C2, as amended. For a line or raster line with \<open>1 \<le> step_event_count < 2 ^ 31\<close> and
  \<open>steps_a \<le> step_event_count\<close>, taken from the head of the planner queue: at each of its
  step events the counter of axis \<open>a\<close> starts in \<open>(-step_event_count, 0]\<close> (the first one
  from \<open>-(step_event_count / 2)\<close>), is in \<open>(-step_event_count, step_event_count]\<close> after
  the steps are added, and is back in \<open>(-step_event_count, 0]\<close> when the event is over.
\<close>

theorem bresenham_counters_in_range:
  assumes mb: "motion_block b"
    and n0: "0 < step_event_count b" and n: "step_event_count b < 2 ^ 31"
    and st: "steps_of a b \<le> step_event_count b"
    and s: "\<not> busy s" "\<not> stop_requested s" "current_block s = None"
      "planner_queue s = b # q"
    and len: "length inps < unat (step_event_count b)"
    and ls: "\<forall>i \<in> set inps. limit_stop cfg i = None"
    and ls1: "limit_stop cfg inp = None"
  shows "- uint (step_event_count b) < sint (entry_counter b a (run_isr cfg inps s))
    \<and> sint (entry_counter b a (run_isr cfg inps s)) \<le> 0
    \<and> - uint (step_event_count b)
        < sint (entry_counter b a (run_isr cfg inps s) + steps_of a b)
    \<and> sint (entry_counter b a (run_isr cfg inps s) + steps_of a b)
        \<le> uint (step_event_count b)
    \<and> - uint (step_event_count b)
        < sint (counter_of a (TIMER1_COMPA_vect cfg inp (run_isr cfg inps s)))
    \<and> sint (counter_of a (TIMER1_COMPA_vect cfg inp (run_isr cfg inps s))) \<le> 0"
proof -
  have n': "uint (step_event_count b) < 2 ^ 31" using n by (simp add: word_less_def)
  have ex: "executing b q s" using s by (simp add: executing_def)
  have e0: "entry_events s = of_nat 0" using s(3) by (simp add: entry_events_def)
  have len0: "0 + length inps < unat (step_event_count b)" using len by simp
  from run_events [OF mb ex e0 len0 ls]
  have exr: "executing b q (run_isr cfg inps s)" by blast
  from run_counters [OF mb n0 n' st s len ls]
  have c: "- uint (step_event_count b) < sint (entry_counter b a (run_isr cfg inps s))"
    "sint (entry_counter b a (run_isr cfg inps s)) \<le> 0" by blast+
  note b = isr_step_bounds [OF mb n' st exr ls1 c]
  from c b show ?thesis by (intro conjI)
qed

theorem bresenham_counters_in_range_witness:
  "- uint (step_event_count (line_block 3 4 0 4))
     < sint (entry_counter (line_block 3 4 0 4) X_AXIS
          (run_isr example_config [no_signal] (armed [line_block 3 4 0 4] raster_bytes)))
   \<and> sint (entry_counter (line_block 3 4 0 4) X_AXIS
          (run_isr example_config [no_signal] (armed [line_block 3 4 0 4] raster_bytes))) \<le> 0
   \<and> - uint (step_event_count (line_block 3 4 0 4))
       < sint (entry_counter (line_block 3 4 0 4) X_AXIS
            (run_isr example_config [no_signal] (armed [line_block 3 4 0 4] raster_bytes))
          + steps_of X_AXIS (line_block 3 4 0 4))
   \<and> sint (entry_counter (line_block 3 4 0 4) X_AXIS
            (run_isr example_config [no_signal] (armed [line_block 3 4 0 4] raster_bytes))
          + steps_of X_AXIS (line_block 3 4 0 4))
       \<le> uint (step_event_count (line_block 3 4 0 4))
   \<and> - uint (step_event_count (line_block 3 4 0 4))
       < sint (counter_of X_AXIS (TIMER1_COMPA_vect example_config no_signal
            (run_isr example_config [no_signal] (armed [line_block 3 4 0 4] raster_bytes))))
   \<and> sint (counter_of X_AXIS (TIMER1_COMPA_vect example_config no_signal
            (run_isr example_config [no_signal] (armed [line_block 3 4 0 4] raster_bytes))))
       \<le> 0"
proof -
  let ?b = "line_block 3 4 0 4" and ?s = "armed [line_block 3 4 0 4] raster_bytes"
  have h1: "motion_block ?b" by (simp add: motion_block_def line_block_def)
  have h2: "0 < step_event_count ?b" "step_event_count ?b < 2 ^ 31"
    "steps_of X_AXIS ?b \<le> step_event_count ?b"
    by (simp_all add: line_block_def)
  have h3: "\<not> busy ?s" "\<not> stop_requested ?s" "current_block ?s = None"
    "planner_queue ?s = ?b # []"
    by (simp_all add: armed_def)
  have h4: "length [no_signal] < unat (step_event_count ?b)"
    by (simp add: line_block_def)
  have h5: "\<forall>i \<in> set [no_signal]. limit_stop example_config i = None"
    "limit_stop example_config no_signal = None"
    by (simp_all add: limit_stop_def limit_hit_def no_signal_def)
  show ?thesis
    by (rule bresenham_counters_in_range [OF h1 h2 h3 h4 h5])
qed

text \<open>
  Without the bound \<open>2 ^ 31\<close> the claim fails: the counters are \<^verbatim>\<open>int32_t\<close>. With
  \<open>step_event_count = 0xffffffff\<close> and \<open>steps_y = 0x80000000\<close> the counter of Y starts
  from \<open>-2147483647\<close>, wraps to 1 when the steps are added, and is 2 after the first step
  event, which is not in \<open>(-step_event_count, 0]\<close>.
\<close>

theorem counters_beyond_int32_counterexample:
  "0 < step_event_count (line_block 0 0x80000000 0 0xffffffff)
   \<and> steps_of Y_AXIS (line_block 0 0x80000000 0 0xffffffff)
       \<le> step_event_count (line_block 0 0x80000000 0 0xffffffff)
   \<and> sint (entry_counter (line_block 0 0x80000000 0 0xffffffff) Y_AXIS
        (armed [line_block 0 0x80000000 0 0xffffffff] raster_bytes)) = - 2147483647
   \<and> sint (counter_of Y_AXIS (TIMER1_COMPA_vect example_config no_signal
        (armed [line_block 0 0x80000000 0 0xffffffff] raster_bytes))) = 2
   \<and> \<not> sint (counter_of Y_AXIS (TIMER1_COMPA_vect example_config no_signal
        (armed [line_block 0 0x80000000 0 0xffffffff] raster_bytes))) \<le> 0"
  by code_simp

text \<open>
  C3, as amended. For a line or raster line whose planner-provided rates satisfy
  \<open>MINIMUM_STEPS_PER_MINUTE \<le> initial_rate \<le> nominal_rate\<close> and
  \<open>MINIMUM_STEPS_PER_MINUTE \<le> final_rate \<le> nominal_rate\<close> (with \<open>nominal_rate\<close> and
  \<open>rate_delta\<close> less than \<open>2 ^ 31\<close>), after every step event of the block
  \<open>MINIMUM_STEPS_PER_MINUTE \<le> adjusted_rate \<le> nominal_rate\<close>. The bound from below
  rests on the rates of the block, not on \<open>adjust_speed\<close>: called with a rate \<open>r\<close>,
  \<open>adjust_speed\<close> leaves \<open>adjusted_rate\<close> as it is, and what it raises to the minimum is
  the rate from which it computes the timer period.
\<close>

theorem adjusted_rate_within_limits:
  assumes mb: "motion_block b"
    and i: "MINIMUM_STEPS_PER_MINUTE cfg \<le> initial_rate b" "initial_rate b \<le> nominal_rate b"
    and f: "MINIMUM_STEPS_PER_MINUTE cfg \<le> final_rate b" "final_rate b \<le> nominal_rate b"
    and w: "nominal_rate b < 2 ^ 31" "rate_delta b < 2 ^ 31"
    and s: "\<not> busy s" "\<not> stop_requested s" "current_block s = None"
      "planner_queue s = b # q"
    and ne: "inps \<noteq> []" and len: "length inps \<le> unat (step_event_count b)"
    and ls: "\<forall>inp \<in> set inps. limit_stop cfg inp = None"
  shows "MINIMUM_STEPS_PER_MINUTE cfg \<le> adjusted_rate (run_isr cfg inps s)
    \<and> adjusted_rate (run_isr cfg inps s) \<le> nominal_rate b
    \<and> adjusted_rate (adjust_speed cfg r t) = adjusted_rate t
    \<and> (r < MINIMUM_STEPS_PER_MINUTE cfg \<longrightarrow>
         adjust_speed cfg r t = adjust_speed cfg (MINIMUM_STEPS_PER_MINUTE cfg) t)
    \<and> cycles_per_step_event (adjust_speed cfg r t)
         = fst (config_step_timer
                 (CYCLES_PER_MINUTE cfg
                    div (if r < MINIMUM_STEPS_PER_MINUTE cfg
                         then MINIMUM_STEPS_PER_MINUTE cfg else r)) t)"
proof -
  have "uint (nominal_rate b) < 2 ^ 31" "uint (rate_delta b) < 2 ^ 31"
    using w by (simp_all add: word_less_def)
  then have nw: "uint (nominal_rate b) + uint (rate_delta b) < 2 ^ 32" by simp
  note r = run_rate [OF mb i f nw s ne len ls]
  have a: "r < MINIMUM_STEPS_PER_MINUTE cfg \<longrightarrow>
         adjust_speed cfg r t = adjust_speed cfg (MINIMUM_STEPS_PER_MINUTE cfg) t"
    by (simp add: adjust_speed_def)
  have c: "cycles_per_step_event (adjust_speed cfg r t)
         = fst (config_step_timer
                 (CYCLES_PER_MINUTE cfg
                    div (if r < MINIMUM_STEPS_PER_MINUTE cfg
                         then MINIMUM_STEPS_PER_MINUTE cfg else r)) t)"
    by (simp add: adjust_speed_def Let_def split: prod.splits)
  from r a c show ?thesis by simp
qed

theorem adjusted_rate_within_limits_witness:
  "MINIMUM_STEPS_PER_MINUTE example_config
     \<le> adjusted_rate (run_isr example_config (replicate 26 no_signal)
          (armed [ramp_block] raster_bytes))
   \<and> adjusted_rate (run_isr example_config (replicate 26 no_signal)
          (armed [ramp_block] raster_bytes))
     \<le> nominal_rate ramp_block
   \<and> adjusted_rate (run_isr example_config (replicate 1 no_signal)
          (armed [ramp_block] raster_bytes)) = 20000
   \<and> adjusted_rate (run_isr example_config (replicate 2 no_signal)
          (armed [ramp_block] raster_bytes)) = 30000
   \<and> adjusted_rate (run_isr example_config (replicate 7 no_signal)
          (armed [ramp_block] raster_bytes)) = 40000
   \<and> adjusted_rate (run_isr example_config (replicate 10 no_signal)
          (armed [ramp_block] raster_bytes)) = 60000
   \<and> adjusted_rate (run_isr example_config (replicate 26 no_signal)
          (armed [ramp_block] raster_bytes)) = 50000
   \<and> adjusted_rate (adjust_speed example_config 0 (armed [] raster_bytes)) = 0
   \<and> cycles_per_step_event (adjust_speed example_config 0 (armed [] raster_bytes)) = 600000"
proof -
  let ?b = "ramp_block" and ?s = "armed [ramp_block] raster_bytes"
  have h1: "motion_block ?b" by (simp add: motion_block_def ramp_block_def)
  have h2: "MINIMUM_STEPS_PER_MINUTE example_config \<le> initial_rate ?b"
    "initial_rate ?b \<le> nominal_rate ?b"
    "MINIMUM_STEPS_PER_MINUTE example_config \<le> final_rate ?b"
    "final_rate ?b \<le> nominal_rate ?b"
    "nominal_rate ?b < 2 ^ 31" "rate_delta ?b < 2 ^ 31"
    by (simp_all add: ramp_block_def example_config_def)
  have h3: "\<not> busy ?s" "\<not> stop_requested ?s" "current_block ?s = None"
    "planner_queue ?s = ?b # []"
    by (simp_all add: armed_def)
  have h4: "replicate 26 no_signal \<noteq> []"
    "length (replicate 26 no_signal) \<le> unat (step_event_count ?b)"
    by (simp_all add: ramp_block_def)
  have h5: "\<forall>inp \<in> set (replicate 26 no_signal). limit_stop example_config inp = None"
    by (simp add: limit_stop_def limit_hit_def no_signal_def)
  note t = adjusted_rate_within_limits [OF h1 h2 h3 h4 h5,
      of 0 "armed [] raster_bytes"]
  have v: "adjusted_rate (run_isr example_config (replicate 1 no_signal) ?s) = 20000"
    "adjusted_rate (run_isr example_config (replicate 2 no_signal) ?s) = 30000"
    "adjusted_rate (run_isr example_config (replicate 7 no_signal) ?s) = 40000"
    "adjusted_rate (run_isr example_config (replicate 10 no_signal) ?s) = 60000"
    "adjusted_rate (run_isr example_config (replicate 26 no_signal) ?s) = 50000"
    by code_simp+
  have a0: "adjusted_rate (armed [] raster_bytes) = 0" by (simp add: armed_def)
  have c0: "fst (config_step_timer
                 (CYCLES_PER_MINUTE example_config
                    div (if 0 < MINIMUM_STEPS_PER_MINUTE example_config
                         then MINIMUM_STEPS_PER_MINUTE example_config else 0))
                 (armed [] raster_bytes)) = 600000"
    by (simp add: config_step_timer_def timer_setting_def CYCLES_PER_MINUTE_def
        example_config_def)
  from t v a0 c0 show ?thesis by simp
qed

text \<open>
  The claim as stated fails for rates below \<^verbatim>\<open>MINIMUM_STEPS_PER_MINUTE\<close> (1600 in
  the configuration evaluated): a block that accelerates from \<open>initial_rate = 0\<close> by
  \<open>rate_delta = 0\<close> has \<open>adjusted_rate = 0\<close> after its first step event, and a
  block that decelerates to \<open>final_rate = 0\<close> has \<open>adjusted_rate = 0\<close> after the first
  acceleration tick of its deceleration, here on its sixth step event.
  \<open>adjust_speed\<close> raises to the minimum only the value it passes on to the timer.
\<close>

theorem adjusted_rate_below_minimum_counterexample:
  "initial_rate ((line_block 3 4 0 4)\<lparr>initial_rate := 0, accelerate_until := 2\<rparr>)
     \<le> nominal_rate ((line_block 3 4 0 4)\<lparr>initial_rate := 0, accelerate_until := 2\<rparr>)
   \<and> final_rate ((line_block 3 4 0 4)\<lparr>initial_rate := 0, accelerate_until := 2\<rparr>)
     \<le> nominal_rate ((line_block 3 4 0 4)\<lparr>initial_rate := 0, accelerate_until := 2\<rparr>)
   \<and> adjusted_rate (TIMER1_COMPA_vect example_config no_signal
        (armed [(line_block 3 4 0 4)\<lparr>initial_rate := 0, accelerate_until := 2\<rparr>] raster_bytes)) = 0
   \<and> adjusted_rate (TIMER1_COMPA_vect example_config no_signal
        (armed [(line_block 3 4 0 4)\<lparr>initial_rate := 0, accelerate_until := 2\<rparr>] raster_bytes))
     < MINIMUM_STEPS_PER_MINUTE example_config
   \<and> final_rate ((line_block 3 4 0 20)
        \<lparr>final_rate := 0, rate_delta := 60000, decelerate_after := 0\<rparr>)
     \<le> nominal_rate ((line_block 3 4 0 20)
        \<lparr>final_rate := 0, rate_delta := 60000, decelerate_after := 0\<rparr>)
   \<and> adjusted_rate (run_isr example_config (replicate 6 no_signal)
        (armed [(line_block 3 4 0 20)
           \<lparr>final_rate := 0, rate_delta := 60000, decelerate_after := 0\<rparr>] raster_bytes)) = 0
   \<and> adjusted_rate (run_isr example_config (replicate 6 no_signal)
        (armed [(line_block 3 4 0 20)
           \<lparr>final_rate := 0, rate_delta := 60000, decelerate_after := 0\<rparr>] raster_bytes))
     < MINIMUM_STEPS_PER_MINUTE example_config"
  by code_simp






text \<open>
  C5, as amended. With the interlocks compiled in, an invocation that finds
  \<^verbatim>\<open>X1_LIMIT\<close> asserted (not busy, no stop requested yet) records
  \<^verbatim>\<open>STOPERROR_LIMIT_HIT_X1\<close>, sets the stop request and stops the serial layer, and
  returns; it leaves the processing flag and the planner queue as they were. It is the
  next invocation, which sees the request, that stops the processing and resets the
  planner queue.
\<close>

theorem x1_limit_stops_on_next_entry:
  assumes il: "ENABLE_LASER_INTERLOCKS cfg" and x1: "SENSE_X1_LIMIT inp"
    and s: "\<not> busy s" "\<not> stop_requested s"
  shows "stop_status (TIMER1_COMPA_vect cfg inp s) = STOPERROR_LIMIT_HIT_X1 cfg
    \<and> stop_requested (TIMER1_COMPA_vect cfg inp s)
    \<and> serial_stopped (TIMER1_COMPA_vect cfg inp s)
    \<and> \<not> busy (TIMER1_COMPA_vect cfg inp s)
    \<and> stepper_processing (TIMER1_COMPA_vect cfg inp s) = stepper_processing s
    \<and> planner_queue (TIMER1_COMPA_vect cfg inp s) = planner_queue s
    \<and> stop_status (TIMER1_COMPA_vect cfg inp' (TIMER1_COMPA_vect cfg inp s))
        = STOPERROR_LIMIT_HIT_X1 cfg
    \<and> \<not> stepper_processing (TIMER1_COMPA_vect cfg inp' (TIMER1_COMPA_vect cfg inp s))
    \<and> planner_queue (TIMER1_COMPA_vect cfg inp' (TIMER1_COMPA_vect cfg inp s)) = []"
proof -
  have l: "limit_stop cfg inp = Some (STOPERROR_LIMIT_HIT_X1 cfg)"
    using il x1 by (simp add: limit_stop_def limit_hit_def)
  have 1: "TIMER1_COMPA_vect cfg inp s
      = (stepper_request_stop (STOPERROR_LIMIT_HIT_X1 cfg)
           (if SENSE_DOOR_OPEN inp \<or> SENSE_CHILLER_OFF inp
            then control_laser_intensity 0 (s\<lparr>busy := True\<rparr>) else s\<lparr>busy := True\<rparr>))
          \<lparr>busy := False\<rparr>"
    using s il by (simp add: TIMER1_COMPA_vect_def l Let_def)
  have first: "stop_status (TIMER1_COMPA_vect cfg inp s) = STOPERROR_LIMIT_HIT_X1 cfg"
    "stop_requested (TIMER1_COMPA_vect cfg inp s)"
    "serial_stopped (TIMER1_COMPA_vect cfg inp s)"
    "\<not> busy (TIMER1_COMPA_vect cfg inp s)"
    "stepper_processing (TIMER1_COMPA_vect cfg inp s) = stepper_processing s"
    "planner_queue (TIMER1_COMPA_vect cfg inp s) = planner_queue s"
    unfolding 1 using s
    by (simp_all add: stepper_request_stop_def serial_stop_def control_laser_intensity_def
        stepper_processing_def)
  have 2: "TIMER1_COMPA_vect cfg inp' (TIMER1_COMPA_vect cfg inp s)
      = (planner_reset_block_buffer
           (stepper_stop_processing ((TIMER1_COMPA_vect cfg inp s)\<lparr>busy := True\<rparr>)))
          \<lparr>busy := False\<rparr>"
    using first(2,4) by (simp add: TIMER1_COMPA_vect_def [of cfg inp'] Let_def)
  have second: "stop_status (TIMER1_COMPA_vect cfg inp' (TIMER1_COMPA_vect cfg inp s))
        = STOPERROR_LIMIT_HIT_X1 cfg"
    "\<not> stepper_processing (TIMER1_COMPA_vect cfg inp' (TIMER1_COMPA_vect cfg inp s))"
    "planner_queue (TIMER1_COMPA_vect cfg inp' (TIMER1_COMPA_vect cfg inp s)) = []"
    unfolding 2 using first(1)
    by (simp_all add: planner_reset_block_buffer_def stepper_processing_def)
  from first second show ?thesis by (intro conjI)
qed

theorem x1_limit_stops_on_next_entry_witness:
  "stop_status (TIMER1_COMPA_vect example_config x1_asserted
       (armed [line_block 3 4 0 4] raster_bytes)) = STOPERROR_LIMIT_HIT_X1 example_config
   \<and> stop_requested (TIMER1_COMPA_vect example_config x1_asserted
       (armed [line_block 3 4 0 4] raster_bytes))
   \<and> serial_stopped (TIMER1_COMPA_vect example_config x1_asserted
       (armed [line_block 3 4 0 4] raster_bytes))
   \<and> \<not> busy (TIMER1_COMPA_vect example_config x1_asserted
       (armed [line_block 3 4 0 4] raster_bytes))
   \<and> stepper_processing (TIMER1_COMPA_vect example_config x1_asserted
       (armed [line_block 3 4 0 4] raster_bytes))
       = stepper_processing (armed [line_block 3 4 0 4] raster_bytes)
   \<and> planner_queue (TIMER1_COMPA_vect example_config x1_asserted
       (armed [line_block 3 4 0 4] raster_bytes))
       = planner_queue (armed [line_block 3 4 0 4] raster_bytes)
   \<and> stop_status (TIMER1_COMPA_vect example_config no_signal
       (TIMER1_COMPA_vect example_config x1_asserted
          (armed [line_block 3 4 0 4] raster_bytes))) = STOPERROR_LIMIT_HIT_X1 example_config
   \<and> \<not> stepper_processing (TIMER1_COMPA_vect example_config no_signal
       (TIMER1_COMPA_vect example_config x1_asserted
          (armed [line_block 3 4 0 4] raster_bytes)))
   \<and> planner_queue (TIMER1_COMPA_vect example_config no_signal
       (TIMER1_COMPA_vect example_config x1_asserted
          (armed [line_block 3 4 0 4] raster_bytes))) = []"
proof -
  have h: "ENABLE_LASER_INTERLOCKS example_config" "SENSE_X1_LIMIT x1_asserted"
    "\<not> busy (armed [line_block 3 4 0 4] raster_bytes)"
    "\<not> stop_requested (armed [line_block 3 4 0 4] raster_bytes)"
    by (simp_all add: example_config_def x1_asserted_def armed_def)
  show ?thesis by (rule x1_limit_stops_on_next_entry [OF h])
qed

text \<open>
  The claim as stated fails during the execution of a line: after the one invocation
  that sees the limit, the stepper is still processing and the planner still holds the
  block.
\<close>

theorem x1_limit_same_invocation_counterexample:
  "current_block
     (TIMER1_COMPA_vect example_config no_signal (armed [line_block 3 4 0 4] raster_bytes))
     = Some (line_block 3 4 0 4)
   \<and> \<not> busy
     (TIMER1_COMPA_vect example_config no_signal (armed [line_block 3 4 0 4] raster_bytes))
   \<and> \<not> stop_requested
     (TIMER1_COMPA_vect example_config no_signal (armed [line_block 3 4 0 4] raster_bytes))
   \<and> stepper_processing
     (TIMER1_COMPA_vect example_config x1_asserted
        (TIMER1_COMPA_vect example_config no_signal
           (armed [line_block 3 4 0 4] raster_bytes)))
   \<and> planner_queue
     (TIMER1_COMPA_vect example_config x1_asserted
        (TIMER1_COMPA_vect example_config no_signal
           (armed [line_block 3 4 0 4] raster_bytes)))
     = [line_block 3 4 0 4]"
  by code_simp


text \<open>
  C6. For a raster line with \<open>pixel_steps = 10\<close>, \<open>step_event_count = 100\<close> and
  \<open>nominal_laser_intensity = 200\<close> whose step events 10 to 30 are cruising, and a raster
  stream that supplies the bytes 128, 255, 192: after the step events 10, 20 and 30 the
  code has set the laser intensity to 0, 199 and 100, where the claim has 0, 200 and 100.
  The code evaluates \<^verbatim>\<open>(chr-128)*2*nominal_laser_intensity/255\<close> in a 16-bit \<^verbatim>\<open>int\<close>
  with a truncating division. For the byte 255 the factor \<open>(255 - 128) * 2\<close> is 254, not
  255, so the full-scale byte gives \<open>254 * 200 / 255 = 199\<close> and no byte gives the
  nominal intensity (\<open>raster_intensity_below_nominal\<close>); and from 32768 on the product
  wraps: for the byte 230 the code gives 159 where the formula has 160.
\<close>

theorem raster_cruise_intensities:
  assumes rb: "btype b = TYPE_RASTER_LINE"
    and b: "pixel_steps b = 10" "step_event_count b = 100"
    and li: "nominal_laser_intensity b = 200"
    and ph: "accelerate_until b \<le> 10" "30 < decelerate_after b"
    and s: "\<not> busy s" "\<not> stop_requested s" "current_block s = None"
      "planner_queue s = b # q"
    and rs: "raster s 0 = 128" "raster s 1 = 255" "raster s 2 = 192"
    and len: "length inps = 30"
    and ls: "\<forall>inp \<in> set inps. limit_stop cfg inp = None"
  shows "laser_intensity (run_isr cfg (take 10 inps) s) = 0
    \<and> laser_intensity (run_isr cfg (take 20 inps) s) = 199
    \<and> laser_intensity (run_isr cfg inps s) = 100"
proof -
  have v: "raster_intensity 128 200 = 0" "raster_intensity 255 200 = 199"
    "raster_intensity 192 200 = 100"
    by (simp_all add: raster_intensity_def signed_divide_int_def)
  have ls': "\<forall>inp \<in> set (take k inps). limit_stop cfg inp = None" for k
    using ls by (meson in_set_takeD)
  have at: "laser_intensity (run_isr cfg (take k inps) s)
      = raster_intensity (raster s (k div 10 - 1)) (nominal_laser_intensity b)"
    if "0 < k" "k \<le> 30" "k mod 10 = 0" for k
  proof -
    have l: "length (take k inps) = k" using len that(2) by simp
    then have "length (take k inps) \<le> 30" "take k inps \<noteq> []"
      using that(1,2) by auto
    with raster_scenario_run [OF rb b ph s _ ls', of k] that(3) l
    show ?thesis by simp
  qed
  have rs': "raster s (Suc 0) = 255" "raster s (Suc (Suc 0)) = 192"
    using rs by (simp_all add: numeral_2_eq_2)
  have 1: "laser_intensity (run_isr cfg (take 10 inps) s) = 0"
    using at [of 10] by (simp add: li rs rs' v)
  have 2: "laser_intensity (run_isr cfg (take 20 inps) s) = 199"
    using at [of 20] by (simp add: li rs rs' v)
  have 3: "laser_intensity (run_isr cfg inps s) = 100"
    using at [of 30] len by (simp add: li rs rs' v)
  from 1 2 3 show ?thesis by (intro conjI)
qed

theorem raster_cruise_intensities_witness:
  "laser_intensity (run_isr example_config (take 10 (replicate 30 no_signal))
      (armed [raster_block] raster_bytes)) = 0
   \<and> laser_intensity (run_isr example_config (take 20 (replicate 30 no_signal))
      (armed [raster_block] raster_bytes)) = 199
   \<and> laser_intensity (run_isr example_config (replicate 30 no_signal)
      (armed [raster_block] raster_bytes)) = 100"
proof -
  let ?s = "armed [raster_block] raster_bytes"
  have h1: "btype raster_block = TYPE_RASTER_LINE" "pixel_steps raster_block = 10"
    "step_event_count raster_block = 100" "nominal_laser_intensity raster_block = 200"
    "accelerate_until raster_block \<le> 10" "30 < decelerate_after raster_block"
    by (simp_all add: raster_block_def)
  have h2: "\<not> busy ?s" "\<not> stop_requested ?s" "current_block ?s = None"
    "planner_queue ?s = raster_block # []"
    "raster ?s 0 = 128" "raster ?s 1 = 255" "raster ?s 2 = 192"
    by (simp_all add: armed_def raster_bytes_def)
  have h3: "length (replicate 30 no_signal) = 30"
    "\<forall>inp \<in> set (replicate 30 no_signal). limit_stop example_config inp = None"
    by (simp_all add: limit_stop_def limit_hit_def no_signal_def)
  show ?thesis
    by (rule raster_cruise_intensities [OF h1 h2 h3])
qed

theorem raster_full_scale_counterexample:
  "raster_bytes 1 = 255
   \<and> laser_intensity (run_isr example_config (replicate 20 no_signal)
        (armed [raster_block] raster_bytes)) = 199
   \<and> laser_intensity (run_isr example_config (replicate 20 no_signal)
        (armed [raster_block] raster_bytes)) \<noteq> nominal_laser_intensity raster_block
   \<and> raster_intensity 255 200 = 199
   \<and> raster_intensity 230 200 = 159
   \<and> (230 - 128) * 2 * 200 div 255 = (160 :: int)
   \<and> raster_intensity 255 255 = 253
   \<and> (255 - 128) * 2 * 255 div 255 = (254 :: int)"
  by code_simp

text \<open>
  C7, as amended. A line with \<open>steps_x = 3\<close>, \<open>steps_y = 4\<close>, \<open>steps_z = 0\<close> and
  \<open>step_event_count = 4\<close>, its counters starting from \<open>-(step_event_count / 2) = -2\<close>,
  run in five step cycles, the four step events of the line and the invocation after
  them. The step events 1, 3 and 4 step X, all four step Y and none steps Z, and each
  pattern is written to the port by the next invocation: the first invocation emits what
  was pending before the line, X has its pulses in the invocations 2, 4 and 5, and Y in
  the invocations 2 to 5. Within the four invocations of the line 2 pulses are emitted on
  X and 3 on Y; with the fifth they are 3 and 4.
\<close>

theorem diagonal_3_4_pulses:
  assumes cfg: "pins_ok cfg" and mb: "motion_block b" and dir: "direction_only cfg b"
    and b: "steps_x b = 3" "steps_y b = 4" "steps_z b = 0" "step_event_count b = 4"
    and s: "\<not> busy s" "\<not> stop_requested s" "current_block s = None"
      "planner_queue s = b # q"
    and ls: "limit_stop cfg i1 = None" "limit_stop cfg i2 = None"
      "limit_stop cfg i3 = None" "limit_stop cfg i4 = None" "limit_stop cfg i5 = None"
  shows "map (port_pulse cfg X_AXIS) (step_cycles cfg [i1, i2, i3, i4, i5] s)
           = [step_pattern cfg X_AXIS s, True, False, True, True]
    \<and> map (port_pulse cfg Y_AXIS) (step_cycles cfg [i1, i2, i3, i4, i5] s)
           = [step_pattern cfg Y_AXIS s, True, True, True, True]
    \<and> map (port_pulse cfg Z_AXIS) (step_cycles cfg [i1, i2, i3, i4, i5] s)
           = [step_pattern cfg Z_AXIS s, False, False, False, False]
    \<and> pulses_emitted cfg X_AXIS [i1, i2, i3, i4] s
           = (if step_pattern cfg X_AXIS s then 1 else 0) + 2
    \<and> pulses_emitted cfg Y_AXIS [i1, i2, i3, i4] s
           = (if step_pattern cfg Y_AXIS s then 1 else 0) + 3
    \<and> pulses_emitted cfg X_AXIS [i1, i2, i3, i4, i5] s
           = (if step_pattern cfg X_AXIS s then 1 else 0) + 3
    \<and> pulses_emitted cfg Y_AXIS [i1, i2, i3, i4, i5] s
           = (if step_pattern cfg Y_AXIS s then 1 else 0) + 4"
proof -
  note p = diagonal_3_4_patterns [OF cfg mb dir b s ls(1-4)]
  have l5: "\<forall>inp \<in> set [i1, i2, i3, i4, i5]. limit_stop cfg inp = None"
    using ls by simp
  have tr: "butlast (s # isr_trace cfg [i1, i2, i3, i4, i5] s)
      = s # isr_trace cfg [i1, i2, i3, i4] s"
    by simp
  have m: "map (port_pulse cfg a) (step_cycles cfg [i1, i2, i3, i4, i5] s)
      = step_pattern cfg a s # map (step_pattern cfg a) (isr_trace cfg [i1, i2, i3, i4] s)" for a
    using step_cycles_pulses [OF cfg s(1,2) l5, of a "STEPPING_PORT s"]
    unfolding tr by simp
  have x: "map (port_pulse cfg X_AXIS) (step_cycles cfg [i1, i2, i3, i4, i5] s)
           = [step_pattern cfg X_AXIS s, True, False, True, True]"
    and y: "map (port_pulse cfg Y_AXIS) (step_cycles cfg [i1, i2, i3, i4, i5] s)
           = [step_pattern cfg Y_AXIS s, True, True, True, True]"
    and z: "map (port_pulse cfg Z_AXIS) (step_cycles cfg [i1, i2, i3, i4, i5] s)
           = [step_pattern cfg Z_AXIS s, False, False, False, False]"
    unfolding m using p by simp_all
  have c5: "pulses_emitted cfg a [i1, i2, i3, i4, i5] s
      = length (filter id (map (port_pulse cfg a) (step_cycles cfg [i1, i2, i3, i4, i5] s)))"
    for a
    by (simp add: pulses_emitted_def filter_map comp_def)
  have c4: "pulses_emitted cfg a [i1, i2, i3, i4] s
      = length (filter id (butlast
          (map (port_pulse cfg a) (step_cycles cfg [i1, i2, i3, i4, i5] s))))"
    for a
    by (simp add: pulses_emitted_def filter_map comp_def)
  show ?thesis
    unfolding c4 c5 x y z by simp
qed


theorem diagonal_3_4_pulses_witness:
  "map (port_pulse example_config X_AXIS)
     (step_cycles example_config [no_signal, no_signal, no_signal, no_signal, no_signal]
        (armed [line_block 3 4 0 4] raster_bytes)) = [False, True, False, True, True]
   \<and> map (port_pulse example_config Y_AXIS)
       (step_cycles example_config [no_signal, no_signal, no_signal, no_signal, no_signal]
          (armed [line_block 3 4 0 4] raster_bytes)) = [False, True, True, True, True]
   \<and> map (port_pulse example_config Z_AXIS)
       (step_cycles example_config [no_signal, no_signal, no_signal, no_signal, no_signal]
          (armed [line_block 3 4 0 4] raster_bytes)) = [False, False, False, False, False]
   \<and> pulses_emitted example_config X_AXIS [no_signal, no_signal, no_signal, no_signal]
       (armed [line_block 3 4 0 4] raster_bytes) = 2
   \<and> pulses_emitted example_config Y_AXIS [no_signal, no_signal, no_signal, no_signal]
       (armed [line_block 3 4 0 4] raster_bytes) = 3
   \<and> pulses_emitted example_config X_AXIS
       [no_signal, no_signal, no_signal, no_signal, no_signal]
       (armed [line_block 3 4 0 4] raster_bytes) = 3
   \<and> pulses_emitted example_config Y_AXIS
       [no_signal, no_signal, no_signal, no_signal, no_signal]
       (armed [line_block 3 4 0 4] raster_bytes) = 4"
proof -
  let ?b = "line_block 3 4 0 4" and ?s = "armed [line_block 3 4 0 4] raster_bytes"
  have h1: "pins_ok example_config" by (simp add: pins_ok_def example_config_def)
  have h2: "motion_block ?b" by (simp add: motion_block_def line_block_def)
  have h3: "direction_only example_config ?b"
    by (simp add: direction_only_def line_block_def)
  have h4: "steps_x ?b = 3" "steps_y ?b = 4" "steps_z ?b = 0" "step_event_count ?b = 4"
    by (simp_all add: line_block_def)
  have h5: "\<not> busy ?s" "\<not> stop_requested ?s" "current_block ?s = None"
    "planner_queue ?s = ?b # []"
    by (simp_all add: armed_def)
  have h6: "limit_stop example_config no_signal = None"
    by (simp add: limit_stop_def limit_hit_def no_signal_def)
  have p0: "\<not> step_pattern example_config X_AXIS ?s" "\<not> step_pattern example_config Y_AXIS ?s"
    "\<not> step_pattern example_config Z_AXIS ?s"
    by (simp_all add: armed_def step_pattern_def example_config_def)
  show ?thesis
    using diagonal_3_4_pulses [OF h1 h2 h3 h4 h5 h6 h6 h6 h6 h6] p0 by simp
qed


text \<open>
  The claim as stated has the second pulse of X on step event 2. The second step event
  computes no step of X (its counter is \<open>-3 + 3 = 0\<close>, which is not positive) and the
  third does; and the four invocations of the line emit 2 pulses on X and 3 on Y.
\<close>

theorem diagonal_3_4_second_event_counterexample:
  "\<not> step_pattern example_config X_AXIS
       (run_cycles example_config [no_signal, no_signal]
          (armed [line_block 3 4 0 4] raster_bytes))
   \<and> step_pattern example_config X_AXIS
       (run_cycles example_config [no_signal, no_signal, no_signal]
          (armed [line_block 3 4 0 4] raster_bytes))
   \<and> map (port_pulse example_config X_AXIS)
       (step_cycles example_config [no_signal, no_signal, no_signal, no_signal, no_signal]
          (armed [line_block 3 4 0 4] raster_bytes)) = [False, True, False, True, True]
   \<and> pulses_emitted example_config X_AXIS [no_signal, no_signal, no_signal, no_signal]
       (armed [line_block 3 4 0 4] raster_bytes) = 2
   \<and> pulses_emitted example_config Y_AXIS [no_signal, no_signal, no_signal, no_signal]
       (armed [line_block 3 4 0 4] raster_bytes) = 3"
  by code_simp

text \<open>
  C10. Stopping the processing, from any state, clears the processing flag and the
  current block, disables the step interrupt and sets the laser intensity to 0; and an
  invocation of the step interrupt that takes the processing flag from set to clear (the
  stop request it observes, the empty planner queue) leaves the state so: no current
  block, the interrupt disabled, the laser at 0.
\<close>

theorem idle_only_through_stop_processing:
  "\<not> processing_flag (stepper_stop_processing s)
   \<and> current_block (stepper_stop_processing s) = None
   \<and> \<not> OCIE1A (stepper_stop_processing s)
   \<and> laser_intensity (stepper_stop_processing s) = 0
   \<and> (processing_flag s \<and> \<not> processing_flag (TIMER1_COMPA_vect cfg inp s) \<longrightarrow>
        current_block (TIMER1_COMPA_vect cfg inp s) = None
        \<and> \<not> OCIE1A (TIMER1_COMPA_vect cfg inp s)
        \<and> laser_intensity (TIMER1_COMPA_vect cfg inp s) = 0)
   \<and> (\<not> busy s \<and> stop_requested s \<longrightarrow>
        \<not> processing_flag (TIMER1_COMPA_vect cfg inp s)
        \<and> laser_intensity (TIMER1_COMPA_vect cfg inp s) = 0)
   \<and> (\<not> busy s \<and> \<not> stop_requested s \<and> limit_stop cfg inp = None
        \<and> current_block s = None \<and> planner_queue s = [] \<longrightarrow>
        \<not> processing_flag (TIMER1_COMPA_vect cfg inp s)
        \<and> laser_intensity (TIMER1_COMPA_vect cfg inp s) = 0)"
  by (simp add: TIMER1_COMPA_vect_def planner_reset_block_buffer_def
      planner_get_current_block_def control_laser_intensity_def Let_def
      split: option.splits list.splits)

theorem idle_only_through_stop_processing_witness:
  "processing_flag (armed [] raster_bytes)
   \<and> laser_intensity (armed [] raster_bytes) = 77
   \<and> \<not> processing_flag (TIMER1_COMPA_vect example_config no_signal (armed [] raster_bytes))
   \<and> current_block (TIMER1_COMPA_vect example_config no_signal (armed [] raster_bytes)) = None
   \<and> \<not> OCIE1A (TIMER1_COMPA_vect example_config no_signal (armed [] raster_bytes))
   \<and> laser_intensity (TIMER1_COMPA_vect example_config no_signal (armed [] raster_bytes)) = 0"
proof -
  have h: "processing_flag (armed [] raster_bytes)"
    "laser_intensity (armed [] raster_bytes) = 77"
    "\<not> busy (armed [] raster_bytes)" "\<not> stop_requested (armed [] raster_bytes)"
    "limit_stop example_config no_signal = None"
    "current_block (armed [] raster_bytes) = None" "planner_queue (armed [] raster_bytes) = []"
    by (simp_all add: armed_def limit_stop_def limit_hit_def no_signal_def)
  show ?thesis
    using h idle_only_through_stop_processing
      [of "armed [] raster_bytes" example_config no_signal]
    by blast
qed

text \<open>
  C8. Starting with no stop requested, a second stop request leaves the status of the
  first and the request flag set, and changes nothing at all in the state.
\<close>

theorem request_stop_first_wins:
  "\<not> stop_requested s \<Longrightarrow>
     stop_status (stepper_request_stop k2 (stepper_request_stop k1 s)) = k1
     \<and> stop_requested (stepper_request_stop k2 (stepper_request_stop k1 s))
     \<and> stepper_request_stop k2 (stepper_request_stop k1 s) = stepper_request_stop k1 s"
  by (simp add: stepper_request_stop_def serial_stop_def)

theorem request_stop_first_wins_witness:
  "stop_status (stepper_request_stop 2 (stepper_request_stop 1 (armed [] raster_bytes))) = 1
   \<and> stop_requested (stepper_request_stop 2 (stepper_request_stop 1 (armed [] raster_bytes)))
   \<and> stepper_request_stop 2 (stepper_request_stop 1 (armed [] raster_bytes))
       = stepper_request_stop 1 (armed [] raster_bytes)"
proof -
  have h: "\<not> stop_requested (armed [] raster_bytes)" by (simp add: armed_def)
  show ?thesis by (rule request_stop_first_wins [OF h])
qed




end
